theory Spec2Isabelle
  imports Complex_Main
begin

section \<open>JavaScript numbers\<close>

text \<open>
  The component \<^verbatim>\<open>src/App.vue\<close> computes with JavaScript Numbers, which are IEEE-754
  binary64 values. A value of the model is one of the three special values, which the star
  generation can produce by dividing by zero, or a finite value, given by the real number
  it denotes:
  \<^item> every arithmetic operation on finite values rounds its exact result to binary64
    (round to nearest, ties to even, with subnormals and overflow to an infinity), and a
    decimal literal of the source that is not a binary64 value, such as \<^verbatim>\<open>0.3\<close>, is the
    binary64 value nearest to it;
  \<^item> every store into a \<^verbatim>\<open>Float32Array\<close> rounds to binary32 in the same way; the three
    buffers of the star field are of that type;
  \<^item> the two zeros are not told apart, and a zero divisor acts as \<open>+0\<close>, the sign that
    every zero divisor of this program has (a square root, a window dimension).
\<close>

datatype number = Finite real | Infinity | NegInfinity | NaN

fun is_nan :: "number \<Rightarrow> bool" where
  "is_nan NaN = True"
| "is_nan _ = False"

fun is_zero :: "number \<Rightarrow> bool" where
  "is_zero (Finite a) = (a = 0)"
| "is_zero _ = False"

fun is_neg :: "number \<Rightarrow> bool" where
  "is_neg (Finite a) = (a < 0)"
| "is_neg NegInfinity = True"
| "is_neg _ = False"

fun is_finite :: "number \<Rightarrow> bool" where
  "is_finite (Finite a) = True"
| "is_finite _ = False"

definition inf_of :: "bool \<Rightarrow> number" where
  "inf_of negative = (if negative then NegInfinity else Infinity)"

subsection \<open>Rounding to a binary format\<close>

text \<open>
  A binary format is given by its precision \<open>p\<close> (the number of significand bits) and its
  least and greatest exponents: 53, -1022 and 1023 for binary64, and 24, -126 and 127 for
  binary32. \<open>expo k e a\<close> searches downwards from \<open>e\<close>, for at most \<open>k\<close> steps, for the
  largest exponent whose power of two is at most \<open>a\<close>; started at the greatest exponent it
  stops at the least one at the latest, which is what makes the values below
  \<open>2\<^sup>e\<^sup>m\<^sup>i\<^sup>n\<close> subnormal. The spacing of the format at exponent \<open>e\<close> is \<open>2\<^sup>e\<^sup>-\<^sup>p\<^sup>+\<^sup>1\<close>;
  \<open>bin_round\<close> rounds to the nearest multiple of it, ties to the even multiple, and
  \<open>bin_value\<close> overflows to an infinity once the rounded magnitude reaches
  \<open>2\<^sup>e\<^sup>m\<^sup>a\<^sup>x\<^sup>+\<^sup>1\<close>. \<open>f64\<close> is the result of a binary64 operation whose exact result is
  the given real; \<open>fround\<close> is \<^verbatim>\<open>Math.fround\<close>, the conversion of a typed-array store.
\<close>

fun expo :: "nat \<Rightarrow> int \<Rightarrow> real \<Rightarrow> int" where
  "expo 0 e a = e"
| "expo (Suc k) e a = (if 2 powi e \<le> a then e else expo k (e - 1) a)"

definition bin_exponent :: "int \<Rightarrow> int \<Rightarrow> real \<Rightarrow> int" where
  "bin_exponent emin emax x = expo (nat (emax - emin)) emax \<bar>x\<bar>"

definition round_half_even :: "real \<Rightarrow> int" where
  "round_half_even q =
     (let f = \<lfloor>q\<rfloor>; d = q - of_int f
      in if d < 1/2 then f
         else if 1/2 < d then f + 1
         else if even f then f else f + 1)"

definition bin_ulp :: "nat \<Rightarrow> int \<Rightarrow> int \<Rightarrow> real \<Rightarrow> real" where
  "bin_ulp p emin emax x = 2 powi (bin_exponent emin emax x - int p + 1)"

definition bin_round :: "nat \<Rightarrow> int \<Rightarrow> int \<Rightarrow> real \<Rightarrow> real" where
  "bin_round p emin emax x =
     of_int (round_half_even (x / bin_ulp p emin emax x)) * bin_ulp p emin emax x"

definition bin_value :: "nat \<Rightarrow> int \<Rightarrow> int \<Rightarrow> real \<Rightarrow> number" where
  "bin_value p emin emax x =
     (let y = bin_round p emin emax x
      in if 2 powi (emax + 1) \<le> \<bar>y\<bar> then inf_of (y < 0) else Finite y)"

definition f64_round :: "real \<Rightarrow> real" where
  "f64_round x = bin_round 53 (- 1022) 1023 x"

definition f64 :: "real \<Rightarrow> number" where
  "f64 x = bin_value 53 (- 1022) 1023 x"

definition f32_round :: "real \<Rightarrow> real" where
  "f32_round x = bin_round 24 (- 126) 127 x"

fun fround :: "number \<Rightarrow> number" where
  "fround (Finite x) = bin_value 24 (- 126) 127 x"
| "fround x = x"

subsection \<open>Operators\<close>

text \<open>
  The operators \<^verbatim>\<open>+ - * / <\<close> and \<^verbatim>\<open>Math.sqrt\<close> on these values, with the IEEE-754 rules for
  the special values. On finite operands each of them rounds the exact result to binary64
  (negation and comparison are exact).
\<close>

fun num_neg :: "number \<Rightarrow> number" where
  "num_neg (Finite a) = Finite (- a)"
| "num_neg Infinity = NegInfinity"
| "num_neg NegInfinity = Infinity"
| "num_neg NaN = NaN"

fun num_add :: "number \<Rightarrow> number \<Rightarrow> number" where
  "num_add (Finite a) (Finite b) = f64 (a + b)"
| "num_add NaN _ = NaN"
| "num_add _ NaN = NaN"
| "num_add Infinity NegInfinity = NaN"
| "num_add NegInfinity Infinity = NaN"
| "num_add (Finite a) y = y"
| "num_add x _ = x"

definition num_sub :: "number \<Rightarrow> number \<Rightarrow> number" where
  "num_sub x y = num_add x (num_neg y)"

fun num_mul :: "number \<Rightarrow> number \<Rightarrow> number" where
  "num_mul (Finite a) (Finite b) = f64 (a * b)"
| "num_mul x y =
     (if is_nan x \<or> is_nan y \<or> is_zero x \<or> is_zero y then NaN
      else inf_of (is_neg x \<noteq> is_neg y))"

fun num_div :: "number \<Rightarrow> number \<Rightarrow> number" where
  "num_div (Finite a) (Finite b) =
     (if b \<noteq> 0 then f64 (a / b)
      else if a = 0 then NaN
      else inf_of (a < 0))"
| "num_div (Finite a) Infinity = Finite 0"
| "num_div (Finite a) NegInfinity = Finite 0"
| "num_div Infinity (Finite b) = inf_of (b < 0)"
| "num_div NegInfinity (Finite b) = inf_of (\<not> b < 0)"
| "num_div _ _ = NaN"

fun num_sqrt :: "number \<Rightarrow> number" where
  "num_sqrt (Finite a) = (if a < 0 then NaN else f64 (sqrt a))"
| "num_sqrt Infinity = Infinity"
| "num_sqrt _ = NaN"

fun num_less :: "number \<Rightarrow> number \<Rightarrow> bool" where
  "num_less (Finite a) (Finite b) = (a < b)"
| "num_less NaN _ = False"
| "num_less _ NaN = False"
| "num_less _ NegInfinity = False"
| "num_less Infinity _ = False"
| "num_less _ _ = True"

section \<open>Star generation\<close>

text \<open>
  Lines 30 to 65 of \<^verbatim>\<open>src/App.vue\<close>. \<^verbatim>\<open>new Float32Array(n)\<close> is \<open>n\<close> zeros; an
  element store converts the value to binary32, and a store outside the array is ignored
  (a typed array never grows).
\<close>

type_synonym float32array = "number list"

definition new_Float32Array :: "nat \<Rightarrow> float32array" where
  "new_Float32Array n = replicate n (Finite 0)"

definition f32_set :: "float32array \<Rightarrow> nat \<Rightarrow> number \<Rightarrow> float32array" where
  "f32_set a i v = (if i < length a then a[i := fround v] else a)"

text \<open>
  The state of the generation loop: the three buffers, a log of the element stores made so
  far (which buffer, which index; oldest first), and the number of calls of
  \<^verbatim>\<open>Math.random()\<close> made so far. \<^verbatim>\<open>Math.random()\<close> is modelled by the stream \<open>rand\<close> of
  the values it returns, in call order. An element store updates the buffer and appends
  to the log in one step.
\<close>

datatype buffer = Positions | Colors | Sizes

record gen_state =
  positions :: float32array
  colors :: float32array
  sizes :: float32array
  writes :: "(buffer \<times> nat) list"
  random_calls :: nat

definition Math_random :: "(nat \<Rightarrow> real) \<Rightarrow> gen_state \<Rightarrow> number \<times> gen_state" where
  "Math_random rand st = (Finite (rand (random_calls st)), st\<lparr>random_calls := random_calls st + 1\<rparr>)"

fun store :: "buffer \<Rightarrow> nat \<Rightarrow> number \<Rightarrow> gen_state \<Rightarrow> gen_state" where
  "store Positions i v st =
     st\<lparr>positions := f32_set (positions st) i v, writes := writes st @ [(Positions, i)]\<rparr>"
| "store Colors i v st =
     st\<lparr>colors := f32_set (colors st) i v, writes := writes st @ [(Colors, i)]\<rparr>"
| "store Sizes i v st =
     st\<lparr>sizes := f32_set (sizes st) i v, writes := writes st @ [(Sizes, i)]\<rparr>"

text \<open>
  The body of the loop, line by line:
  \<^verbatim>\<open>let x = (Math.random() - 0.5) * 20\<close> is \<open>coordinate\<close>,
  \<^verbatim>\<open>Math.sqrt(x * x + y * y + z * z)\<close> is \<open>distance_of\<close>, the conditional rescaling of
  lines 45 to 52 is \<open>push_out\<close>, and \<^verbatim>\<open>Math.random() * 0.3 + 0.1\<close> is \<open>star_size\<close>.
  The literals \<^verbatim>\<open>0.5\<close>, \<^verbatim>\<open>20\<close> and \<^verbatim>\<open>2\<close> are binary64 values; \<^verbatim>\<open>0.3\<close> and \<^verbatim>\<open>0.1\<close> are not, and stand
  for the binary64 values nearest to them, \<open>f64 (3/10)\<close> and \<open>f64 (1/10)\<close>.
  The comment on line 44 speaks of 5 units from the camera; what the code compares is the
  distance from the origin with the constant 2 of line 45.
\<close>

definition starCount :: nat where
  "starCount = 2000"

definition minDistance :: number where
  "minDistance = Finite 2"

definition coordinate :: "number \<Rightarrow> number" where
  "coordinate r = num_mul (num_sub r (Finite (1/2))) (Finite 20)"

definition distance_of :: "number \<Rightarrow> number \<Rightarrow> number \<Rightarrow> number" where
  "distance_of x y z = num_sqrt (num_add (num_add (num_mul x x) (num_mul y y)) (num_mul z z))"

definition push_out :: "number \<Rightarrow> number \<Rightarrow> number \<Rightarrow> number \<times> number \<times> number" where
  "push_out x y z =
     (let distance = distance_of x y z
      in if num_less distance minDistance
         then let scale = num_div minDistance distance
              in (num_mul x scale, num_mul y scale, num_mul z scale)
         else (x, y, z))"

definition star_size :: "number \<Rightarrow> number" where
  "star_size r = num_add (num_mul r (f64 (3/10))) (f64 (1/10))"

definition star_body :: "(nat \<Rightarrow> real) \<Rightarrow> nat \<Rightarrow> gen_state \<Rightarrow> gen_state" where
  "star_body rand i st0 =
     (let i3 = i * 3;
          (r1, st1) = Math_random rand st0;
          x = coordinate r1;
          (r2, st2) = Math_random rand st1;
          y = coordinate r2;
          (r3, st3) = Math_random rand st2;
          z = coordinate r3;
          (x', y', z') = push_out x y z;
          st4 = store Positions i3 x' st3;
          st5 = store Positions (i3 + 1) y' st4;
          st6 = store Positions (i3 + 2) z' st5;
          (r, st7) = Math_random rand st6;
          st8 = store Colors i3 r st7;
          (g, st9) = Math_random rand st8;
          st10 = store Colors (i3 + 1) g st9;
          (b, st11) = Math_random rand st10;
          st12 = store Colors (i3 + 2) b st11;
          (s, st13) = Math_random rand st12
      in store Sizes i (star_size s) st13)"

function star_loop :: "(nat \<Rightarrow> real) \<Rightarrow> nat \<Rightarrow> gen_state \<Rightarrow> gen_state" where
  "star_loop rand i st =
     (if i < starCount then star_loop rand (i + 1) (star_body rand i st) else st)"
  by pat_completeness auto
termination
  by (relation "measure (\<lambda>(rand, i, st). starCount - i)") auto

definition generate_stars :: "(nat \<Rightarrow> real) \<Rightarrow> nat \<Rightarrow> gen_state" where
  "generate_stars rand n =
     star_loop rand 0
       \<lparr>positions = new_Float32Array (starCount * 3),
        colors = new_Float32Array (starCount * 3),
        sizes = new_Float32Array starCount,
        writes = [],
        random_calls = n\<rparr>"

text \<open>
  Names for what one iteration reads and writes: the coordinate drawn by call \<open>n\<close> of
  \<^verbatim>\<open>Math.random()\<close>, the position the loop computes for the star whose first draw is
  call \<open>n\<close>, and the seven element stores of star \<open>i\<close>.
\<close>

definition drawn :: "(nat \<Rightarrow> real) \<Rightarrow> nat \<Rightarrow> number" where
  "drawn rand n = coordinate (Finite (rand n))"

definition star_position :: "(nat \<Rightarrow> real) \<Rightarrow> nat \<Rightarrow> number \<times> number \<times> number" where
  "star_position rand n = push_out (drawn rand n) (drawn rand (n + 1)) (drawn rand (n + 2))"

definition star_writes :: "nat \<Rightarrow> (buffer \<times> nat) list" where
  "star_writes i =
     [(Positions, i * 3), (Positions, i * 3 + 1), (Positions, i * 3 + 2),
      (Colors, i * 3), (Colors, i * 3 + 1), (Colors, i * 3 + 2), (Sizes, i)]"

section \<open>Scene, handlers and the browser\<close>

text \<open>
  The objects of the graphics library are records of the fields the component sets or
  reads. The projection matrix of the camera is represented by the parameters it was last
  computed from; the renderer counts its \<^verbatim>\<open>render\<close> and \<^verbatim>\<open>dispose\<close> calls.
  Reading a property of an unset variable is a \<open>TypeError\<close>.
\<close>

datatype js_error = TypeError

record canvas =
  canvas_width :: number
  canvas_height :: number

record camera =
  fov :: number
  aspect :: number
  near :: number
  far :: number
  position :: "number \<times> number \<times> number"
  projection :: "number \<times> number \<times> number \<times> number"

definition updateProjectionMatrix :: "camera \<Rightarrow> camera" where
  "updateProjectionMatrix c = c\<lparr>projection := (fov c, aspect c, near c, far c)\<rparr>"

definition new_PerspectiveCamera :: "number \<Rightarrow> number \<Rightarrow> number \<Rightarrow> number \<Rightarrow> camera" where
  "new_PerspectiveCamera f a n fr =
     updateProjectionMatrix
       \<lparr>fov = f, aspect = a, near = n, far = fr,
        position = (Finite 0, Finite 0, Finite 0),
        projection = (f, a, n, fr)\<rparr>"

record renderer =
  antialias :: bool
  width :: number
  height :: number
  pixelRatio :: number
  render_calls :: nat
  dispose_calls :: nat

definition new_WebGLRenderer :: "canvas \<Rightarrow> bool \<Rightarrow> renderer" where
  "new_WebGLRenderer cv aa =
     \<lparr>antialias = aa, width = canvas_width cv, height = canvas_height cv,
      pixelRatio = Finite 1, render_calls = 0, dispose_calls = 0\<rparr>"

definition setSize :: "number \<Rightarrow> number \<Rightarrow> renderer \<Rightarrow> renderer" where
  "setSize w h r = r\<lparr>width := w, height := h\<rparr>"

definition setPixelRatio :: "number \<Rightarrow> renderer \<Rightarrow> renderer" where
  "setPixelRatio v r = setSize (width r) (height r) (r\<lparr>pixelRatio := v\<rparr>)"

definition render :: "renderer \<Rightarrow> renderer" where
  "render r = r\<lparr>render_calls := render_calls r + 1\<rparr>"

definition dispose :: "renderer \<Rightarrow> renderer" where
  "dispose r = r\<lparr>dispose_calls := dispose_calls r + 1\<rparr>"

record uniforms =
  uTime :: number
  uTexture :: string

record points =
  position_attribute :: float32array
  color_attribute :: float32array
  size_attribute :: float32array
  material_uniforms :: "uniforms option"
  rotation_x :: number
  rotation_y :: number
  rotation_z :: number

datatype object3d = Stars

text \<open>
  The component's variables (lines 5 to 9, and the constant \<^verbatim>\<open>stars\<close> that the two
  closures capture) together with the part of the browser they touch: the window's
  dimensions, the number of registered \<^verbatim>\<open>resize\<close> listeners, the animation-frame
  requests that are pending (handles are issued in increasing order, starting at 1), the
  texture loads requested, and the number of \<^verbatim>\<open>Math.random()\<close> calls made.
\<close>

record world =
  canvas_value :: "canvas option"
  innerWidth :: number
  innerHeight :: number
  devicePixelRatio :: number
  scene :: "object3d list option"
  camera :: "camera option"
  renderer :: "renderer option"
  animationFrameId :: "nat option"
  stars :: "points option"
  resize_listeners :: nat
  frame_requests :: "nat list"
  last_handle :: nat
  texture_loads :: "string list"
  math_random_calls :: nat

definition requestAnimationFrame :: "world \<Rightarrow> nat \<times> world" where
  "requestAnimationFrame w =
     (let h = last_handle w + 1
      in (h, w\<lparr>frame_requests := frame_requests w @ [h], last_handle := h\<rparr>))"

definition cancelAnimationFrame :: "nat \<Rightarrow> world \<Rightarrow> world" where
  "cancelAnimationFrame h w = w\<lparr>frame_requests := removeAll h (frame_requests w)\<rparr>"

text \<open>
  Lines 115 to 119, lines 123 to 133, and the body of \<^verbatim>\<open>onMounted\<close> up to the
  registration of the resize listener (lines 14 to 120). The increments \<^verbatim>\<open>0.0002\<close> and
  \<^verbatim>\<open>0.01\<close> of the animation callback and the near plane \<^verbatim>\<open>0.1\<close> of the camera are the binary64
  values nearest to these decimals, and each \<^verbatim>\<open>+=\<close> rounds its sum to binary64.
\<close>

definition handleResize :: "world \<Rightarrow> js_error + world" where
  "handleResize w =
     (case camera w of
        None \<Rightarrow> Inl TypeError
      | Some c \<Rightarrow>
          (let c1 = c\<lparr>aspect := num_div (innerWidth w) (innerHeight w)\<rparr>;
               c2 = updateProjectionMatrix c1
           in case renderer w of
                None \<Rightarrow> Inl TypeError
              | Some r \<Rightarrow>
                  Inr (w\<lparr>camera := Some c2,
                         renderer := Some (setSize (innerWidth w) (innerHeight w) r)\<rparr>)))"

definition animate :: "world \<Rightarrow> js_error + world" where
  "animate w0 =
     (let (h, w1) = requestAnimationFrame w0;
          w2 = w1\<lparr>animationFrameId := Some h\<rparr>
      in case stars w2 of
           None \<Rightarrow> Inl TypeError
         | Some s \<Rightarrow>
             (let s1 = s\<lparr>rotation_y := num_add (rotation_y s) (f64 (2/10000))\<rparr>;
                  s2 = (case material_uniforms s1 of
                          None \<Rightarrow> s1
                        | Some u \<Rightarrow>
                            s1\<lparr>material_uniforms :=
                                 Some (u\<lparr>uTime := num_add (uTime u) (f64 (1/100))\<rparr>)\<rparr>)
              in case renderer w2 of
                   None \<Rightarrow> Inl TypeError
                 | Some r \<Rightarrow> Inr (w2\<lparr>stars := Some s2, renderer := Some (render r)\<rparr>)))"

definition build_scene :: "(nat \<Rightarrow> real) \<Rightarrow> canvas \<Rightarrow> world \<Rightarrow> world" where
  "build_scene rand cv w =
     (let cam = new_PerspectiveCamera (Finite 75)
                  (num_div (innerWidth w) (innerHeight w)) (f64 (1/10)) (Finite 1000);
          cam1 = (case position cam of (px, py, pz) \<Rightarrow> cam\<lparr>position := (px, py, Finite 5)\<rparr>);
          r = new_WebGLRenderer cv True;
          r1 = setSize (innerWidth w) (innerHeight w) r;
          r2 = setPixelRatio (devicePixelRatio w) r1;
          starTexture = ''/star-sprite.png'';
          g = generate_stars rand (math_random_calls w);
          starsMaterial = \<lparr>uTime = Finite 0, uTexture = starTexture\<rparr>;
          s = \<lparr>position_attribute = positions g, color_attribute = colors g,
               size_attribute = sizes g, material_uniforms = Some starsMaterial,
               rotation_x = Finite 0, rotation_y = Finite 0, rotation_z = Finite 0\<rparr>
      in w\<lparr>scene := Some [Stars],
           camera := Some cam1,
           renderer := Some r2,
           stars := Some s,
           resize_listeners := resize_listeners w + 1,
           texture_loads := texture_loads w @ [starTexture],
           math_random_calls := random_calls g\<rparr>)"

text \<open>
  Lines 11 to 135 and 137 to 142. \<^verbatim>\<open>if (animationFrameId)\<close> tests truthiness:
  an unset variable and the number 0 both fail it; \<^verbatim>\<open>renderer?.dispose()\<close> skips the
  call when the variable is unset.
\<close>

definition onMounted :: "(nat \<Rightarrow> real) \<Rightarrow> world \<Rightarrow> js_error + world" where
  "onMounted rand w =
     (case canvas_value w of
        None \<Rightarrow> Inr w
      | Some cv \<Rightarrow> animate (build_scene rand cv w))"

definition truthy :: "nat \<Rightarrow> bool" where
  "truthy h = (h \<noteq> 0)"

definition onUnmounted :: "world \<Rightarrow> js_error + world" where
  "onUnmounted w =
     (let w1 = (case animationFrameId w of
                  None \<Rightarrow> w
                | Some h \<Rightarrow> if truthy h then cancelAnimationFrame h w else w)
      in Inr (w1\<lparr>renderer := map_option dispose (renderer w1)\<rparr>))"

text \<open>
  What the browser does to the component: at a frame it takes the oldest pending request
  and runs its callback, which is always \<open>animate\<close>; at a resize it updates the window's
  dimensions and runs the listener if one is registered. \<open>frames k\<close> is \<open>k\<close> invocations of
  the animation callback; \<open>page_load\<close> is the state before the component is mounted.
\<close>

datatype event = Frame | Resize number number

fun dispatch :: "event \<Rightarrow> world \<Rightarrow> js_error + world" where
  "dispatch Frame w =
     (case frame_requests w of
        [] \<Rightarrow> Inr w
      | h # hs \<Rightarrow> animate (w\<lparr>frame_requests := hs\<rparr>))"
| "dispatch (Resize iw ih) w =
     (let w1 = w\<lparr>innerWidth := iw, innerHeight := ih\<rparr>
      in if resize_listeners w1 = 0 then Inr w1 else handleResize w1)"

fun run :: "event list \<Rightarrow> world \<Rightarrow> js_error + world" where
  "run [] w = Inr w"
| "run (e # es) w = (case dispatch e w of Inl err \<Rightarrow> Inl err | Inr w' \<Rightarrow> run es w')"

fun frames :: "nat \<Rightarrow> world \<Rightarrow> js_error + world" where
  "frames 0 w = Inr w"
| "frames (Suc k) w = (case animate w of Inl err \<Rightarrow> Inl err | Inr w' \<Rightarrow> frames k w')"

definition page_load :: "canvas option \<Rightarrow> number \<Rightarrow> number \<Rightarrow> number \<Rightarrow> world" where
  "page_load cv iw ih dpr =
     \<lparr>canvas_value = cv, innerWidth = iw, innerHeight = ih, devicePixelRatio = dpr,
      scene = None, camera = None, renderer = None, animationFrameId = None,
      stars = None, resize_listeners = 0, frame_requests = [], last_handle = 0,
      texture_loads = [], math_random_calls = 0\<rparr>"

section \<open>Example inputs and invariants\<close>

text \<open>
  Streams of random draws, all of binary64 values of \<open>[0, 1)\<close>: every draw
  \<open>1 - 2\<^sup>-\<^sup>3\<^sup>0\<close>; every draw \<open>1/2\<close>, which puts every star at the origin; and a first
  star drawn at \<open>x = y = 189812535 / 2\<^sup>2\<^sup>7\<close>, \<open>z = 0\<close>, just outside the sphere of
  radius 2.
\<close>

definition near_one :: "nat \<Rightarrow> real" where
  "near_one k = 1 - 1 / 2 ^ 30"

definition at_origin :: "nat \<Rightarrow> real" where
  "at_origin k = 1 / 2"

definition grazing :: "nat \<Rightarrow> real" where
  "grazing k = (if k < 2 then 306397963 / 2 ^ 29 else 1 / 2)"

text \<open>
  The states of the component: mounted (everything constructed, exactly one frame request
  pending, its handle stored), released (after unmount: no request pending, the renderer
  disposed once), and inert (nothing constructed).
\<close>

definition mounted :: "world \<Rightarrow> bool" where
  "mounted w \<longleftrightarrow>
     (\<exists>c r s h. camera w = Some c \<and> renderer w = Some r \<and> stars w = Some s \<and>
        animationFrameId w = Some h \<and> frame_requests w = [h] \<and> h \<noteq> 0 \<and>
        dispose_calls r = 0)"

definition released :: "nat \<Rightarrow> world \<Rightarrow> bool" where
  "released k w \<longleftrightarrow>
     (\<exists>c r. camera w = Some c \<and> renderer w = Some r \<and> frame_requests w = [] \<and>
        render_calls r = k \<and> dispose_calls r = 1)"

definition inert :: "world \<Rightarrow> bool" where
  "inert w \<longleftrightarrow>
     scene w = None \<and> camera w = None \<and> renderer w = None \<and> stars w = None \<and>
     animationFrameId w = None \<and> resize_listeners w = 0 \<and> frame_requests w = [] \<and>
     texture_loads w = [] \<and> math_random_calls w = 0"

definition demo_canvas :: canvas where
  "demo_canvas = \<lparr>canvas_width = Finite 300, canvas_height = Finite 150\<rparr>"

definition demo_page :: "canvas option \<Rightarrow> world" where
  "demo_page cv = page_load cv (Finite 1920) (Finite 1080) (Finite 1)"

text \<open>
  A stream that draws every star at \<open>x = y = z = 5/8\<close>, inside the sphere of radius 2, so
  that every star is rescaled.
\<close>

definition inner :: "nat \<Rightarrow> real" where
  "inner k = 17 / 32"

text \<open>
  \<open>repeated_add k c v\<close> is the value of a variable that starts at \<open>v\<close> after \<open>k\<close> executions
  of \<^verbatim>\<open>variable += c\<close>: \<open>k\<close> binary64 additions, each rounded.
\<close>

primrec repeated_add :: "nat \<Rightarrow> number \<Rightarrow> number \<Rightarrow> number" where
  "repeated_add 0 c v = v"
| "repeated_add (Suc k) c v = repeated_add k c (num_add v c)"

text \<open>
  What an observer reads off the result of a run: the rotation of the star object about
  the vertical axis, and the \<^verbatim>\<open>uTime\<close> entry of its uniform table when there is one.
\<close>

definition readout :: "js_error + world \<Rightarrow> (number \<times> number option) option" where
  "readout res =
     (case res of
        Inl err \<Rightarrow> None
      | Inr w \<Rightarrow>
          (case stars w of
             None \<Rightarrow> None
           | Some s \<Rightarrow> Some (rotation_y s, map_option uTime (material_uniforms s))))"

section \<open>Properties of the rounding\<close>

declare fround.simps [simp del]

lemma expo_bounds: "e - int k \<le> expo k e a \<and> expo k e a \<le> e"
proof (induction k arbitrary: e)
  case 0
  then show ?case by simp
next
  case (Suc k)
  from Suc[of "e - 1"] show ?case by auto
qed

lemma expo_lower: "e - int k < expo k e a \<Longrightarrow> 2 powi (expo k e a) \<le> a"
  by (induction k arbitrary: e) (auto split: if_splits)

lemma expo_upper: "expo k e a < e \<Longrightarrow> a < 2 powi (expo k e a + 1)"
proof (induction k arbitrary: e)
  case 0
  then show ?case by simp
next
  case (Suc k)
  show ?case
  proof (cases "2 powi e \<le> a")
    case True
    with Suc.prems show ?thesis by simp
  next
    case False
    show ?thesis
    proof (cases "expo k (e - 1) a < e - 1")
      case True
      with Suc.IH[of "e - 1"] False show ?thesis by simp
    next
      case False
      with expo_bounds[of "e - 1" k a] have "expo k (e - 1) a = e - 1" by simp
      with \<open>\<not> 2 powi e \<le> a\<close> show ?thesis by simp
    qed
  qed
qed

lemma expo_mono: "a \<le> b \<Longrightarrow> expo k e a \<le> expo k e b"
proof (induction k arbitrary: e)
  case 0
  then show ?case by simp
next
  case (Suc k)
  have "expo k (e - 1) b \<le> e" "expo k (e - 1) a \<le> e"
    using expo_bounds[of "e - 1" k b] expo_bounds[of "e - 1" k a] by simp_all
  with Suc show ?case by auto
qed

lemma bin_exponent_range:
  "emin \<le> emax \<Longrightarrow> emin \<le> bin_exponent emin emax x \<and> bin_exponent emin emax x \<le> emax"
  using expo_bounds[of emax "nat (emax - emin)" "\<bar>x\<bar>"] by (simp add: bin_exponent_def)

lemma bin_exponent_lower:
  "emin \<le> emax \<Longrightarrow> emin < bin_exponent emin emax x \<Longrightarrow>
   2 powi (bin_exponent emin emax x) \<le> \<bar>x\<bar>"
  using expo_lower[of emax "nat (emax - emin)" "\<bar>x\<bar>"] by (simp add: bin_exponent_def)

lemma bin_exponent_upper:
  "bin_exponent emin emax x < emax \<Longrightarrow> \<bar>x\<bar> < 2 powi (bin_exponent emin emax x + 1)"
  using expo_upper[of "nat (emax - emin)" emax "\<bar>x\<bar>"] by (simp add: bin_exponent_def)

lemma bin_exponent_mono:
  "\<bar>x\<bar> \<le> \<bar>y\<bar> \<Longrightarrow> bin_exponent emin emax x \<le> bin_exponent emin emax y"
  by (simp add: bin_exponent_def expo_mono)

lemma bin_exponent_eqI:
  assumes "emin \<le> e" "e \<le> emax"
    and lo: "emin < e \<Longrightarrow> 2 powi e \<le> \<bar>x\<bar>"
    and hi: "e < emax \<Longrightarrow> \<bar>x\<bar> < 2 powi (e + 1)"
  shows "bin_exponent emin emax x = e"
proof (rule antisym)
  have mm: "emin \<le> emax" using assms by simp
  show "bin_exponent emin emax x \<le> e"
  proof (rule ccontr)
    assume "\<not> bin_exponent emin emax x \<le> e"
    then have gt: "e < bin_exponent emin emax x" by simp
    with bin_exponent_range[OF mm, of x] have "e < emax" by simp
    from gt assms(1) have "2 powi (bin_exponent emin emax x) \<le> \<bar>x\<bar>"
      by (intro bin_exponent_lower mm) simp
    moreover have "(2::real) powi (e + 1) \<le> 2 powi (bin_exponent emin emax x)"
      using gt by (intro power_int_increasing) auto
    ultimately show False using hi[OF \<open>e < emax\<close>] by simp
  qed
  show "e \<le> bin_exponent emin emax x"
  proof (rule ccontr)
    assume "\<not> e \<le> bin_exponent emin emax x"
    then have lt: "bin_exponent emin emax x < e" by simp
    with bin_exponent_range[OF mm, of x] have "emin < e" by simp
    from lt assms(2) have "\<bar>x\<bar> < 2 powi (bin_exponent emin emax x + 1)"
      by (intro bin_exponent_upper) simp
    moreover have "(2::real) powi (bin_exponent emin emax x + 1) \<le> 2 powi e"
      using lt by (intro power_int_increasing) auto
    ultimately show False using lo[OF \<open>emin < e\<close>] by simp
  qed
qed

lemma round_half_even_error: "\<bar>of_int (round_half_even q) - q\<bar> \<le> 1/2"
  unfolding round_half_even_def Let_def by (auto simp: abs_if) linarith+

lemma round_half_even_of_int [simp]: "round_half_even (of_int n) = n"
  by (simp add: round_half_even_def)

lemma round_half_even_mono:
  assumes "p \<le> q"
  shows "round_half_even p \<le> round_half_even q"
proof (cases "\<lfloor>p\<rfloor> = \<lfloor>q\<rfloor>")
  case True
  with assms show ?thesis
    unfolding round_half_even_def Let_def by auto
next
  case False
  with assms have "\<lfloor>p\<rfloor> + 1 \<le> \<lfloor>q\<rfloor>"
    using floor_mono[of p q] by linarith
  moreover have "round_half_even p \<le> \<lfloor>p\<rfloor> + 1"
    unfolding round_half_even_def Let_def by auto
  moreover have "\<lfloor>q\<rfloor> \<le> round_half_even q"
    unfolding round_half_even_def Let_def by auto
  ultimately show ?thesis by linarith
qed

lemma round_half_even_minus: "round_half_even (- q) = - round_half_even q"
proof (cases "q \<in> \<int>")
  case True
  then obtain n where "q = of_int n" by (auto elim: Ints_cases)
  then show ?thesis
    by (metis of_int_minus round_half_even_of_int)
next
  case False
  then have ne: "q \<noteq> of_int \<lfloor>q\<rfloor>"
    by (metis Ints_of_int)
  then have fl: "\<lfloor>- q\<rfloor> = - \<lfloor>q\<rfloor> - 1"
    by (simp add: floor_minus ceiling_altdef)
  have d: "q - of_int \<lfloor>q\<rfloor> \<noteq> 0" using ne by simp
  show ?thesis
    unfolding round_half_even_def Let_def fl using d by auto
qed

lemma round_half_even_nonneg: "0 \<le> q \<Longrightarrow> 0 \<le> round_half_even q"
  using round_half_even_mono[of 0 q] round_half_even_of_int[of 0] by simp

lemma bin_ulp_pos: "0 < bin_ulp p emin emax x"
  by (simp add: bin_ulp_def)

lemma bin_round_error: "\<bar>bin_round p emin emax x - x\<bar> \<le> bin_ulp p emin emax x / 2"
proof -
  let ?u = "bin_ulp p emin emax x"
  have u: "0 < ?u" by (rule bin_ulp_pos)
  have "\<bar>of_int (round_half_even (x / ?u)) - x / ?u\<bar> * ?u \<le> 1/2 * ?u"
    using round_half_even_error[of "x / ?u"] u by (intro mult_right_mono) simp_all
  moreover have "\<bar>of_int (round_half_even (x / ?u)) - x / ?u\<bar> * ?u
      = \<bar>bin_round p emin emax x - x\<bar>"
  proof -
    have "\<bar>of_int (round_half_even (x / ?u)) - x / ?u\<bar> * ?u
          = \<bar>(of_int (round_half_even (x / ?u)) - x / ?u) * ?u\<bar>"
      using u by (simp add: abs_mult)
    also have "(of_int (round_half_even (x / ?u)) - x / ?u) * ?u = bin_round p emin emax x - x"
      using u by (simp add: bin_round_def left_diff_distrib)
    finally show ?thesis .
  qed
  ultimately show ?thesis by simp
qed

lemma bin_ulp_half: "bin_ulp p emin emax x / 2 = 2 powi (bin_exponent emin emax x) / 2 ^ p"
proof -
  have "bin_ulp p emin emax x = 2 powi (bin_exponent emin emax x - int p) * 2"
    by (simp add: bin_ulp_def power_int_add)
  then show ?thesis by (simp add: power_int_diff)
qed

lemma bin_round_relative:
  assumes "emin \<le> emax" "2 powi emin \<le> \<bar>x\<bar>"
  shows "\<bar>bin_round p emin emax x - x\<bar> \<le> \<bar>x\<bar> / 2 ^ p"
proof -
  have "2 powi (bin_exponent emin emax x) \<le> \<bar>x\<bar>"
  proof (cases "bin_exponent emin emax x = emin")
    case True
    with assms(2) show ?thesis by simp
  next
    case False
    with bin_exponent_range[OF assms(1), of x] have "emin < bin_exponent emin emax x" by simp
    with assms(1) show ?thesis by (rule bin_exponent_lower)
  qed
  then have "2 powi (bin_exponent emin emax x) / 2 ^ p \<le> \<bar>x\<bar> / 2 ^ p"
    by (simp add: divide_right_mono)
  with bin_round_error[of p emin emax x] show ?thesis
    by (simp only: bin_ulp_half)
qed

lemma bin_round_close:
  assumes "emin \<le> emax"
  shows "\<bar>bin_round p emin emax x - x\<bar> \<le> \<bar>x\<bar> / 2 ^ p + 2 powi emin / 2 ^ p"
proof (cases "bin_exponent emin emax x = emin")
  case True
  with bin_round_error[of p emin emax x]
  have "\<bar>bin_round p emin emax x - x\<bar> \<le> 2 powi emin / 2 ^ p"
    by (simp only: bin_ulp_half)
  then show ?thesis by (simp add: add_increasing)
next
  case False
  with bin_exponent_range[OF assms, of x] have "emin < bin_exponent emin emax x" by simp
  with assms have "2 powi (bin_exponent emin emax x) \<le> \<bar>x\<bar>" by (rule bin_exponent_lower)
  then have "2 powi (bin_exponent emin emax x) / 2 ^ p \<le> \<bar>x\<bar> / 2 ^ p"
    by (simp add: divide_right_mono)
  with bin_round_error[of p emin emax x]
  have "\<bar>bin_round p emin emax x - x\<bar> \<le> \<bar>x\<bar> / 2 ^ p"
    by (simp only: bin_ulp_half)
  then show ?thesis by (simp add: add_increasing2)
qed

lemma bin_exponent_minus [simp]: "bin_exponent emin emax (- x) = bin_exponent emin emax x"
  by (simp add: bin_exponent_def)

lemma bin_ulp_minus [simp]: "bin_ulp p emin emax (- x) = bin_ulp p emin emax x"
  by (simp add: bin_ulp_def)

lemma bin_round_minus: "bin_round p emin emax (- x) = - bin_round p emin emax x"
  by (simp add: bin_round_def round_half_even_minus)

lemma bin_round_nonneg: "0 \<le> x \<Longrightarrow> 0 \<le> bin_round p emin emax x"
  using bin_ulp_pos[of p emin emax x] by (simp add: bin_round_def round_half_even_nonneg)

lemma bin_round_0 [simp]: "bin_round p emin emax 0 = 0"
  by (simp add: bin_round_def round_half_even_def)

lemma bin_round_mono_nonneg:
  assumes mm: "emin \<le> emax" and "0 \<le> x" "x \<le> y"
  shows "bin_round (Suc p) emin emax x \<le> bin_round (Suc p) emin emax y"
proof -
  let ?ex = "bin_exponent emin emax x" and ?ey = "bin_exponent emin emax y"
  let ?ux = "bin_ulp (Suc p) emin emax x" and ?uy = "bin_ulp (Suc p) emin emax y"
  have le: "?ex \<le> ?ey" using assms by (intro bin_exponent_mono) simp
  show ?thesis
  proof (cases "?ex = ?ey")
    case True
    then have u: "?ux = ?uy" by (simp add: bin_ulp_def)
    have "x / ?uy \<le> y / ?uy"
      using assms bin_ulp_pos[of "Suc p" emin emax y] by (simp add: divide_right_mono)
    then have "round_half_even (x / ?uy) \<le> round_half_even (y / ?uy)"
      by (rule round_half_even_mono)
    then show ?thesis
      using bin_ulp_pos[of "Suc p" emin emax y] by (simp add: bin_round_def u mult_right_mono)
  next
    case False
    with le have lt: "?ex < ?ey" by simp
    with bin_exponent_range[OF mm, of y] bin_exponent_range[OF mm, of x]
    have ex: "?ex < emax" and ey: "emin < ?ey" by simp_all
    have top: "(2::real) powi (?ex + 1) = 2 ^ Suc p * ?ux"
      by (simp add: bin_ulp_def power_int_diff power_int_add)
    have bot: "(2::real) powi ?ey = 2 ^ p * ?uy"
      by (simp add: bin_ulp_def power_int_diff power_int_add)
    have "x < 2 powi (?ex + 1)"
      using bin_exponent_upper[OF ex] assms by simp
    then have "x / ?ux \<le> of_int (2 ^ Suc p)"
      unfolding top using bin_ulp_pos[of "Suc p" emin emax x] by (simp add: pos_divide_le_eq)
    then have "round_half_even (x / ?ux) \<le> 2 ^ Suc p"
      using round_half_even_mono[of "x / ?ux" "of_int (2 ^ Suc p)"]
      by (simp only: round_half_even_of_int)
    then have "real_of_int (round_half_even (x / ?ux)) \<le> real_of_int (2 ^ Suc p)"
      by (simp only: of_int_le_iff)
    then have "bin_round (Suc p) emin emax x \<le> real_of_int (2 ^ Suc p) * ?ux"
      using bin_ulp_pos[of "Suc p" emin emax x] unfolding bin_round_def
      by (intro mult_right_mono) simp_all
    also have "\<dots> = 2 powi (?ex + 1)"
      unfolding top by simp
    also have "\<dots> \<le> 2 powi ?ey"
      using lt by (intro power_int_increasing) simp_all
    finally have a: "bin_round (Suc p) emin emax x \<le> 2 powi ?ey" .
    have "2 powi ?ey \<le> y"
      using bin_exponent_lower[OF mm ey] assms by simp
    then have "of_int (2 ^ p) \<le> y / ?uy"
      unfolding bot using bin_ulp_pos[of "Suc p" emin emax y] by (simp add: pos_le_divide_eq)
    then have "2 ^ p \<le> round_half_even (y / ?uy)"
      using round_half_even_mono[of "of_int (2 ^ p)" "y / ?uy"]
      by (simp only: round_half_even_of_int)
    then have "real_of_int (2 ^ p) \<le> real_of_int (round_half_even (y / ?uy))"
      by (simp only: of_int_le_iff)
    then have "real_of_int (2 ^ p) * ?uy \<le> bin_round (Suc p) emin emax y"
      using bin_ulp_pos[of "Suc p" emin emax y] unfolding bin_round_def
      by (intro mult_right_mono) simp_all
    moreover have "real_of_int (2 ^ p) * ?uy = 2 powi ?ey"
      unfolding bot by simp
    ultimately show ?thesis using a by simp
  qed
qed

lemma bin_round_mono:
  assumes "emin \<le> emax" "x \<le> y"
  shows "bin_round (Suc p) emin emax x \<le> bin_round (Suc p) emin emax y"
proof -
  consider "0 \<le> x" | "y \<le> 0" | "x < 0" "0 < y" by linarith
  then show ?thesis
  proof cases
    case 1
    from assms(1) this assms(2) show ?thesis by (rule bin_round_mono_nonneg)
  next
    case 2
    with assms have "bin_round (Suc p) emin emax (- y) \<le> bin_round (Suc p) emin emax (- x)"
      by (intro bin_round_mono_nonneg) simp_all
    then show ?thesis by (simp add: bin_round_minus)
  next
    case 3
    then have "0 \<le> bin_round (Suc p) emin emax y" "0 \<le> bin_round (Suc p) emin emax (- x)"
      by (simp_all add: bin_round_nonneg)
    then show ?thesis by (simp add: bin_round_minus)
  qed
qed

lemma bin_round_eval:
  assumes "emin \<le> e" "e \<le> emax"
    and "emin < e \<Longrightarrow> 2 powi e \<le> \<bar>x\<bar>"
    and "e < emax \<Longrightarrow> \<bar>x\<bar> < 2 powi (e + 1)"
  shows "bin_round p emin emax x
           = of_int (round_half_even (x / 2 powi (e - int p + 1))) * 2 powi (e - int p + 1)"
  using bin_exponent_eqI[OF assms] by (simp add: bin_round_def bin_ulp_def)

lemma f64_round_mono: "x \<le> y \<Longrightarrow> f64_round x \<le> f64_round y"
  using bin_round_mono[of "- 1022" 1023 x y 52] by (simp add: f64_round_def)

lemma f64_round_minus: "f64_round (- x) = - f64_round x"
  by (simp add: f64_round_def bin_round_minus)

lemma f64_round_nonneg: "0 \<le> x \<Longrightarrow> 0 \<le> f64_round x"
  by (simp add: f64_round_def bin_round_nonneg)

lemma f64_round_0 [simp]: "f64_round 0 = 0"
  by (simp add: f64_round_def)

lemma f64_round_relative:
  assumes "1 / 2 ^ 1022 \<le> \<bar>x\<bar>"
  shows "\<bar>f64_round x - x\<bar> \<le> \<bar>x\<bar> / 2 ^ 53"
proof -
  have "(2::real) powi (- 1022) \<le> \<bar>x\<bar>"
    using assms by (simp add: power_int_minus_divide)
  then show ?thesis
    unfolding f64_round_def by (intro bin_round_relative) simp_all
qed

lemma f64_round_eval:
  assumes "- 1022 \<le> e" "e \<le> 1023"
    and "- 1022 < e \<Longrightarrow> 2 powi e \<le> \<bar>x\<bar>"
    and "e < 1023 \<Longrightarrow> \<bar>x\<bar> < 2 powi (e + 1)"
  shows "f64_round x = of_int (round_half_even (x / 2 powi (e - 52))) * 2 powi (e - 52)"
  using bin_round_eval[OF assms, of 53] by (simp add: f64_round_def)

lemma f64_round_abs_le:
  assumes "\<bar>x\<bar> \<le> b" "f64_round b = b"
  shows "\<bar>f64_round x\<bar> \<le> b"
proof -
  have "f64_round x \<le> f64_round b" using assms(1) by (intro f64_round_mono) simp
  moreover have "f64_round (- b) \<le> f64_round x" using assms(1) by (intro f64_round_mono) simp
  ultimately show ?thesis using assms(2) by (simp add: f64_round_minus abs_le_iff)
qed

lemma f64_round_top: "f64_round (2 ^ 1023) = 2 ^ 1023"
  by (subst f64_round_eval[of 1023]) (simp_all add: round_half_even_def)

lemma f64_finite:
  assumes "\<bar>x\<bar> \<le> 2 ^ 1023"
  shows "f64 x = Finite (f64_round x)"
proof -
  have "\<bar>f64_round x\<bar> \<le> 2 ^ 1023"
    using assms f64_round_top by (rule f64_round_abs_le)
  also have "(2::real) ^ 1023 < 2 powi 1024" by simp
  finally show ?thesis
    by (simp add: f64_def bin_value_def f64_round_def Let_def)
qed

lemma f32_round_mono: "x \<le> y \<Longrightarrow> f32_round x \<le> f32_round y"
  using bin_round_mono[of "- 126" 127 x y 23] by (simp add: f32_round_def)

lemma f32_round_minus: "f32_round (- x) = - f32_round x"
  by (simp add: f32_round_def bin_round_minus)

lemma f32_round_nonneg: "0 \<le> x \<Longrightarrow> 0 \<le> f32_round x"
  by (simp add: f32_round_def bin_round_nonneg)

lemma f32_round_0 [simp]: "f32_round 0 = 0"
  by (simp add: f32_round_def)

lemma f32_round_close: "\<bar>f32_round x - x\<bar> \<le> \<bar>x\<bar> / 2 ^ 24 + 1 / 2 ^ 150"
proof -
  have "(2::real) powi (- 126) / 2 ^ 24 = 1 / 2 ^ 150"
    by (simp add: power_int_minus_divide)
  with bin_round_close[of "- 126" 127 24 x] show ?thesis
    by (simp add: f32_round_def)
qed

lemma f32_round_eval:
  assumes "- 126 \<le> e" "e \<le> 127"
    and "- 126 < e \<Longrightarrow> 2 powi e \<le> \<bar>x\<bar>"
    and "e < 127 \<Longrightarrow> \<bar>x\<bar> < 2 powi (e + 1)"
  shows "f32_round x = of_int (round_half_even (x / 2 powi (e - 23))) * 2 powi (e - 23)"
  using bin_round_eval[OF assms, of 24] by (simp add: f32_round_def)

lemma f32_round_1 [simp]: "f32_round 1 = 1"
  by (subst f32_round_eval[of 0]) (simp_all add: power_int_minus_divide round_half_even_def)

lemma fround_small:
  assumes "\<bar>x\<bar> \<le> 16"
  shows "fround (Finite x) = Finite (f32_round x)"
proof -
  have "\<bar>f32_round x\<bar> \<le> \<bar>f32_round x - x\<bar> + \<bar>x\<bar>" by simp
  also have "\<dots> \<le> (\<bar>x\<bar> / 2 ^ 24 + 1 / 2 ^ 150) + \<bar>x\<bar>"
    using f32_round_close[of x] by simp
  also have "\<dots> < 2 powi 128" using assms by simp
  finally show ?thesis by (simp add: fround.simps bin_value_def f32_round_def Let_def)
qed

section \<open>Properties of the generation loop\<close>

declare star_loop.simps [simp del]

lemma length_f32_set [simp]: "length (f32_set a i v) = length a"
  by (simp add: f32_set_def)

lemma nth_f32_set_eq: "i < length a \<Longrightarrow> f32_set a i v ! i = fround v"
  by (simp add: f32_set_def)

lemma nth_f32_set_neq: "i \<noteq> j \<Longrightarrow> f32_set a i v ! j = a ! j"
  by (simp add: f32_set_def)

lemma positions_star_body:
  "positions (star_body rand i st) =
     (case star_position rand (random_calls st) of (x, y, z) \<Rightarrow>
        f32_set (f32_set (f32_set (positions st) (i * 3) x) (i * 3 + 1) y) (i * 3 + 2) z)"
  by (simp add: star_body_def Math_random_def star_position_def drawn_def Let_def split: prod.splits)

lemma colors_star_body:
  "colors (star_body rand i st) =
     f32_set (f32_set (f32_set (colors st) (i * 3) (Finite (rand (random_calls st + 3))))
       (i * 3 + 1) (Finite (rand (random_calls st + 4))))
       (i * 3 + 2) (Finite (rand (random_calls st + 5)))"
  by (simp add: star_body_def Math_random_def Let_def eval_nat_numeral split: prod.splits)

lemma sizes_star_body:
  "sizes (star_body rand i st) =
     f32_set (sizes st) i (star_size (Finite (rand (random_calls st + 6))))"
  by (simp add: star_body_def Math_random_def Let_def eval_nat_numeral split: prod.splits)

lemma writes_star_body:
  "writes (star_body rand i st) = writes st @ star_writes i"
  by (simp add: star_body_def Math_random_def star_writes_def Let_def split: prod.splits)

lemma random_calls_star_body:
  "random_calls (star_body rand i st) = random_calls st + 7"
  by (simp add: star_body_def Math_random_def Let_def eval_nat_numeral split: prod.splits)

lemma length_star_body [simp]:
  "length (positions (star_body rand i st)) = length (positions st)"
  "length (colors (star_body rand i st)) = length (colors st)"
  "length (sizes (star_body rand i st)) = length (sizes st)"
  by (simp_all add: positions_star_body colors_star_body sizes_star_body split: prod.splits)

lemma length_star_loop:
  "length (positions (star_loop rand i st)) = length (positions st) \<and>
   length (colors (star_loop rand i st)) = length (colors st) \<and>
   length (sizes (star_loop rand i st)) = length (sizes st)"
proof (induction rand i st rule: star_loop.induct)
  case (1 rand i st)
  show ?case
  proof (cases "i < starCount")
    case True
    with "1" show ?thesis by (subst (1 2 3) star_loop.simps) simp
  next
    case False
    then show ?thesis by (subst (1 2 3) star_loop.simps) simp
  qed
qed

lemma writes_star_loop:
  "writes (star_loop rand i st) = writes st @ concat (map star_writes [i..<starCount])"
proof (induction rand i st rule: star_loop.induct)
  case (1 rand i st)
  show ?case
  proof (cases "i < starCount")
    case True
    with "1" show ?thesis
      by (subst star_loop.simps) (simp add: writes_star_body upt_conv_Cons)
  next
    case False
    then show ?thesis by (subst star_loop.simps) simp
  qed
qed

lemma earlier_star_loop:
  "(n < i * 3 \<longrightarrow> positions (star_loop rand i st) ! n = positions st ! n) \<and>
   (n < i * 3 \<longrightarrow> colors (star_loop rand i st) ! n = colors st ! n) \<and>
   (n < i \<longrightarrow> sizes (star_loop rand i st) ! n = sizes st ! n)"
proof (induction rand i st rule: star_loop.induct)
  case (1 rand i st)
  show ?case
  proof (cases "i < starCount")
    case True
    with "1" show ?thesis
      by (subst (1 2 3) star_loop.simps)
        (simp add: positions_star_body colors_star_body sizes_star_body nth_f32_set_neq
          split: prod.splits)
  next
    case False
    then show ?thesis by (subst (1 2 3) star_loop.simps) simp
  qed
qed

lemma star_loop_slots:
  assumes "i \<le> j" "j < starCount"
    and "j * 3 + 2 < length (positions st)" "j * 3 + 2 < length (colors st)"
      "j < length (sizes st)"
  shows "(case star_position rand (random_calls st + 7 * (j - i)) of (x, y, z) \<Rightarrow>
           positions (star_loop rand i st) ! (j * 3) = fround x \<and>
           positions (star_loop rand i st) ! (j * 3 + 1) = fround y \<and>
           positions (star_loop rand i st) ! (j * 3 + 2) = fround z) \<and>
         colors (star_loop rand i st) ! (j * 3)
           = fround (Finite (rand (random_calls st + 7 * (j - i) + 3))) \<and>
         colors (star_loop rand i st) ! (j * 3 + 1)
           = fround (Finite (rand (random_calls st + 7 * (j - i) + 4))) \<and>
         colors (star_loop rand i st) ! (j * 3 + 2)
           = fround (Finite (rand (random_calls st + 7 * (j - i) + 5))) \<and>
         sizes (star_loop rand i st) ! j
           = fround (star_size (Finite (rand (random_calls st + 7 * (j - i) + 6))))"
  using assms
proof (induction rand i st rule: star_loop.induct)
  case (1 rand i st)
  from "1.prems" have run: "i < starCount" by simp
  then have unfold: "star_loop rand i st = star_loop rand (i + 1) (star_body rand i st)"
    by (subst star_loop.simps) simp
  show ?case
  proof (cases "i = j")
    case True
    have keep:
      "positions (star_loop rand (j + 1) (star_body rand j st)) ! (j * 3)
         = positions (star_body rand j st) ! (j * 3)"
      "positions (star_loop rand (j + 1) (star_body rand j st)) ! (j * 3 + 1)
         = positions (star_body rand j st) ! (j * 3 + 1)"
      "positions (star_loop rand (j + 1) (star_body rand j st)) ! (j * 3 + 2)
         = positions (star_body rand j st) ! (j * 3 + 2)"
      "colors (star_loop rand (j + 1) (star_body rand j st)) ! (j * 3)
         = colors (star_body rand j st) ! (j * 3)"
      "colors (star_loop rand (j + 1) (star_body rand j st)) ! (j * 3 + 1)
         = colors (star_body rand j st) ! (j * 3 + 1)"
      "colors (star_loop rand (j + 1) (star_body rand j st)) ! (j * 3 + 2)
         = colors (star_body rand j st) ! (j * 3 + 2)"
      "sizes (star_loop rand (j + 1) (star_body rand j st)) ! j
         = sizes (star_body rand j st) ! j"
      using earlier_star_loop[of "j * 3" "j + 1" rand "star_body rand j st"]
        earlier_star_loop[of "j * 3 + 1" "j + 1" rand "star_body rand j st"]
        earlier_star_loop[of "j * 3 + 2" "j + 1" rand "star_body rand j st"]
        earlier_star_loop[of j "j + 1" rand "star_body rand j st"]
      by simp_all
    have step: "star_loop rand j st = star_loop rand (j + 1) (star_body rand j st)"
      using unfold True by simp
    show ?thesis
      using "1.prems" unfolding True step keep
      by (simp add: positions_star_body colors_star_body sizes_star_body
          nth_f32_set_eq nth_f32_set_neq split: prod.splits)
  next
    case False
    with "1.prems" have "i + 1 \<le> j" by simp
    moreover have "7 * (j - i) = 7 + 7 * (j - (i + 1))"
      using \<open>i + 1 \<le> j\<close> by simp
    ultimately show ?thesis
      using "1.IH"[OF run] "1.prems" unfolding unfold
      by (simp add: random_calls_star_body add.assoc)
  qed
qed

lemma length_generate_stars:
  "length (positions (generate_stars rand n)) = starCount * 3"
  "length (colors (generate_stars rand n)) = starCount * 3"
  "length (sizes (generate_stars rand n)) = starCount"
  by (simp_all add: generate_stars_def length_star_loop new_Float32Array_def)

lemma writes_generate_stars:
  "writes (generate_stars rand n) = concat (map star_writes [0..<starCount])"
  by (simp add: generate_stars_def writes_star_loop)

lemma generate_stars_slots:
  assumes "i < starCount"
  shows "(case star_position rand (n + 7 * i) of (x, y, z) \<Rightarrow>
           positions (generate_stars rand n) ! (i * 3) = fround x \<and>
           positions (generate_stars rand n) ! (i * 3 + 1) = fround y \<and>
           positions (generate_stars rand n) ! (i * 3 + 2) = fround z) \<and>
         colors (generate_stars rand n) ! (i * 3) = fround (Finite (rand (n + 7 * i + 3))) \<and>
         colors (generate_stars rand n) ! (i * 3 + 1) = fround (Finite (rand (n + 7 * i + 4))) \<and>
         colors (generate_stars rand n) ! (i * 3 + 2) = fround (Finite (rand (n + 7 * i + 5))) \<and>
         sizes (generate_stars rand n) ! i = fround (star_size (Finite (rand (n + 7 * i + 6))))"
proof -
  let ?st = "\<lparr>positions = new_Float32Array (starCount * 3),
             colors = new_Float32Array (starCount * 3),
             sizes = new_Float32Array starCount,
             writes = [], random_calls = n\<rparr>"
  show ?thesis
    using star_loop_slots[of 0 i ?st rand] assms
    unfolding generate_stars_def by (simp add: new_Float32Array_def)
qed

lemma set_star_writes:
  "set (concat (map star_writes [0..<m])) =
     {Positions, Colors} \<times> {0..<m * 3} \<union> {Sizes} \<times> {0..<m}"
proof (induction m)
  case 0
  then show ?case by simp
next
  case (Suc m)
  have "{0..<Suc m * 3} = {0..<m * 3} \<union> {m * 3, m * 3 + 1, m * 3 + 2}"
    by auto
  moreover have "{0..<Suc m} = {0..<m} \<union> {m}" by auto
  ultimately show ?case
    using Suc by (auto simp: star_writes_def)
qed

lemma distinct_star_writes: "distinct (concat (map star_writes [0..<m]))"
proof (induction m)
  case 0
  then show ?case by simp
next
  case (Suc m)
  have "distinct (star_writes m)" by (simp add: star_writes_def)
  moreover have "set (concat (map star_writes [0..<m])) \<inter> set (star_writes m) = {}"
    unfolding set_star_writes by (auto simp: star_writes_def)
  ultimately show ?case using Suc by simp
qed

section \<open>Properties of the handlers\<close>

lemma animate_defined:
  assumes "stars w = Some s" "renderer w = Some r"
  shows "animate w =
    Inr (w\<lparr>frame_requests := frame_requests w @ [last_handle w + 1],
           last_handle := last_handle w + 1,
           animationFrameId := Some (last_handle w + 1),
           stars := Some (s\<lparr>rotation_y := num_add (rotation_y s) (f64 (2 / 10000)),
                            material_uniforms :=
                              map_option (\<lambda>u. u\<lparr>uTime := num_add (uTime u) (f64 (1 / 100))\<rparr>)
                                (material_uniforms s)\<rparr>),
           renderer := Some (render r)\<rparr>)"
  using assms
  by (cases "material_uniforms s")
    (simp_all add: animate_def requestAnimationFrame_def Let_def)

lemma animate_Inr:
  assumes "animate w = Inr w'"
  obtains s r where "stars w = Some s" "renderer w = Some r"
  using assms
  by (auto simp: animate_def requestAnimationFrame_def Let_def split: option.splits)

lemma mounted_build_scene_animate:
  "\<exists>w'. animate (build_scene rand cv w) = Inr w' \<and>
        (frame_requests w = [] \<longrightarrow> mounted w')"
proof -
  obtain s r where sr: "stars (build_scene rand cv w) = Some s"
    "renderer (build_scene rand cv w) = Some r" "dispose_calls r = 0"
    "frame_requests (build_scene rand cv w) = frame_requests w"
    "camera (build_scene rand cv w) \<noteq> None"
    by (simp add: build_scene_def Let_def setPixelRatio_def setSize_def new_WebGLRenderer_def
        split: prod.splits)
  show ?thesis
    unfolding animate_defined[OF sr(1,2)] using sr(3,4,5)
    by (auto simp: mounted_def render_def)
qed

lemma mounted_dispatch:
  assumes "mounted w"
  shows "\<exists>w'. dispatch e w = Inr w' \<and> mounted w'"
proof -
  from assms obtain c r s h where w: "camera w = Some c" "renderer w = Some r"
    "stars w = Some s" "animationFrameId w = Some h" "frame_requests w = [h]" "h \<noteq> 0"
    "dispose_calls r = 0"
    by (auto simp: mounted_def)
  show ?thesis
  proof (cases e)
    case Frame
    let ?w = "w\<lparr>frame_requests := []\<rparr>"
    have "stars ?w = Some s" "renderer ?w = Some r" using w by simp_all
    from animate_defined[OF this] w show ?thesis
      by (simp add: Frame mounted_def render_def)
  next
    case (Resize iw ih)
    with w show ?thesis
      by (simp add: handleResize_def mounted_def Let_def setSize_def)
  qed
qed

lemma mounted_run:
  assumes "mounted w"
  shows "\<exists>w'. run es w = Inr w' \<and> mounted w'"
  using assms
proof (induction es arbitrary: w)
  case Nil
  then show ?case by simp
next
  case (Cons e es)
  from mounted_dispatch[OF Cons.prems, of e] obtain w1
    where "dispatch e w = Inr w1" "mounted w1" by blast
  with Cons.IH[of w1] show ?case by simp
qed

lemma mounted_onUnmounted:
  assumes "mounted w"
  shows "\<exists>w' r r'. onUnmounted w = Inr w' \<and> renderer w = Some r \<and>
           released (render_calls r) w'"
  using assms
  by (auto simp: mounted_def released_def onUnmounted_def truthy_def cancelAnimationFrame_def
      dispose_def Let_def)

lemma released_dispatch:
  assumes "released k w"
  shows "\<exists>w'. dispatch e w = Inr w' \<and> released k w'"
proof (cases e)
  case Frame
  with assms show ?thesis by (auto simp: released_def)
next
  case (Resize iw ih)
  with assms show ?thesis
    by (auto simp: released_def handleResize_def Let_def setSize_def)
qed

lemma released_run:
  assumes "released k w"
  shows "\<exists>w'. run es w = Inr w' \<and> released k w'"
  using assms
proof (induction es arbitrary: w)
  case Nil
  then show ?case by simp
next
  case (Cons e es)
  from released_dispatch[OF Cons.prems, of e] obtain w1
    where "dispatch e w = Inr w1" "released k w1" by blast
  with Cons.IH[of w1] show ?case by simp
qed

lemma inert_dispatch:
  assumes "inert w"
  shows "\<exists>w'. dispatch e w = Inr w' \<and> inert w'"
  using assms by (cases e) (auto simp: inert_def)

lemma inert_run:
  assumes "inert w"
  shows "\<exists>w'. run es w = Inr w' \<and> inert w'"
  using assms
proof (induction es arbitrary: w)
  case Nil
  then show ?case by simp
next
  case (Cons e es)
  from inert_dispatch[OF Cons.prems, of e] obtain w1
    where "dispatch e w = Inr w1" "inert w1" by blast
  with Cons.IH[of w1] show ?case by simp
qed

lemma inert_page_load: "inert (page_load None iw ih dpr)"
  by (simp add: inert_def page_load_def)

lemma frames_general:
  assumes "stars w = Some s" "renderer w = Some r"
  shows "\<exists>w' s' r'. frames k w = Inr w' \<and> stars w' = Some s' \<and> renderer w' = Some r' \<and>
           rotation_y s' = repeated_add k (f64 (2 / 10000)) (rotation_y s) \<and>
           (material_uniforms s = None \<longrightarrow> material_uniforms s' = None) \<and>
           (\<forall>u. material_uniforms s = Some u \<longrightarrow>
              material_uniforms s' =
                Some (u\<lparr>uTime := repeated_add k (f64 (1 / 100)) (uTime u)\<rparr>)) \<and>
           render_calls r' = render_calls r + k"
  using assms
proof (induction k arbitrary: w s r)
  case 0
  then show ?case by simp
next
  case (Suc k)
  let ?s = "s\<lparr>rotation_y := num_add (rotation_y s) (f64 (2 / 10000)),
               material_uniforms :=
                 map_option (\<lambda>u. u\<lparr>uTime := num_add (uTime u) (f64 (1 / 100))\<rparr>)
                   (material_uniforms s)\<rparr>"
  obtain w1 where w1: "animate w = Inr w1" "stars w1 = Some ?s" "renderer w1 = Some (render r)"
    using animate_defined[OF Suc.prems(1,2)] by simp
  from Suc.IH[OF w1(2,3)] obtain w' s' r' where
    step: "frames k w1 = Inr w'" "stars w' = Some s'" "renderer w' = Some r'"
      "rotation_y s' = repeated_add k (f64 (2 / 10000)) (rotation_y ?s)"
      "material_uniforms ?s = None \<longrightarrow> material_uniforms s' = None"
      "\<forall>u. material_uniforms ?s = Some u \<longrightarrow>
              material_uniforms s' =
                Some (u\<lparr>uTime := repeated_add k (f64 (1 / 100)) (uTime u)\<rparr>)"
      "render_calls r' = render_calls (render r) + k"
    by (elim exE conjE) (rule that)
  have "rotation_y s' = repeated_add (Suc k) (f64 (2 / 10000)) (rotation_y s)"
    using step(4) by simp
  moreover have "material_uniforms s = None \<longrightarrow> material_uniforms s' = None"
    using step(5) by simp
  moreover have "\<forall>u. material_uniforms s = Some u \<longrightarrow>
              material_uniforms s' =
                Some (u\<lparr>uTime := repeated_add (Suc k) (f64 (1 / 100)) (uTime u)\<rparr>)"
  proof (intro allI impI)
    fix u
    assume u: "material_uniforms s = Some u"
    then have "material_uniforms ?s = Some (u\<lparr>uTime := num_add (uTime u) (f64 (1 / 100))\<rparr>)"
      by simp
    with step(6) have "material_uniforms s' =
        Some (u\<lparr>uTime := num_add (uTime u) (f64 (1 / 100)),
               uTime := repeated_add k (f64 (1 / 100))
                 (uTime (u\<lparr>uTime := num_add (uTime u) (f64 (1 / 100))\<rparr>))\<rparr>)"
      by blast
    then show "material_uniforms s' =
        Some (u\<lparr>uTime := repeated_add (Suc k) (f64 (1 / 100)) (uTime u)\<rparr>)"
      by simp
  qed
  moreover have "render_calls r' = render_calls r + Suc k"
    using step(7) by (simp add: render_def)
  ultimately show ?case using w1(1) step(1,2,3) by simp
qed

section \<open>Accumulated rounding of repeated additions\<close>

lemma accumulate_step:
  fixes c s :: real and j :: nat
  assumes c: "1 / 2 ^ 1022 \<le> c" "c \<le> 1"
    and j: "real j < 2 ^ 53"
    and s: "\<bar>s - real j * c\<bar> \<le> (real j)\<^sup>2 * c / 2 ^ 53"
  shows "num_add (Finite s) (Finite c) = Finite (f64_round (s + c)) \<and>
         \<bar>f64_round (s + c) - real (Suc j) * c\<bar> \<le> (real (Suc j))\<^sup>2 * c / 2 ^ 53"
proof -
  define J where "J = real j"
  have J: "0 \<le> J" "J < 2 ^ 53" using j by (simp_all add: J_def)
  have cpos: "0 < c" using c(1) by (rule less_le_trans[rotated]) simp
  have "J * J \<le> J * 2 ^ 53" using J by (intro mult_left_mono) simp_all
  then have key: "J\<^sup>2 / 2 ^ 53 \<le> J" by (simp add: power2_eq_square)
  then have keyc: "c * (J\<^sup>2 / 2 ^ 53) \<le> c * J"
    using cpos by (intro mult_left_mono) simp_all
  have s': "\<bar>s - c * J\<bar> \<le> c * (J\<^sup>2 / 2 ^ 53)"
    using s by (simp add: J_def mult.commute)
  have nn: "0 \<le> c * J" using cpos J by simp
  have lo: "0 \<le> s" using s' keyc nn by linarith
  have hi: "s \<le> 2 * (c * J)" using s' keyc nn by linarith
  have cJ: "c * J \<le> 2 ^ 53"
  proof -
    have "c * J \<le> 1 * 2 ^ 53" using c(2) J cpos by (intro mult_mono) simp_all
    then show ?thesis by simp
  qed
  have small: "\<bar>s + c\<bar> \<le> 2 ^ 1023"
  proof -
    have "\<bar>s + c\<bar> \<le> 2 * 2 ^ 53 + 1" using lo hi cJ c(2) cpos by linarith
    also have "\<dots> \<le> (2::real) ^ 1023" by simp
    finally show ?thesis .
  qed
  have normal: "1 / 2 ^ 1022 \<le> \<bar>s + c\<bar>" using lo c(1) by simp
  have first: "num_add (Finite s) (Finite c) = Finite (f64_round (s + c))"
    using small by (simp add: f64_finite)
  have "\<bar>f64_round (s + c) - (s + c)\<bar> \<le> \<bar>s + c\<bar> / 2 ^ 53"
    using normal by (rule f64_round_relative)
  also have "\<bar>s + c\<bar> = s + c" using lo cpos by simp
  finally have r: "\<bar>f64_round (s + c) - (s + c)\<bar> \<le> (s + c) / 2 ^ 53" .
  have up: "s \<le> c * J + c * (J\<^sup>2 / 2 ^ 53)" using s' by linarith
  have keyc2: "c * (J\<^sup>2 / 2 ^ 53) / 2 ^ 53 \<le> c * J / 2 ^ 53"
    using keyc by (simp add: divide_right_mono)
  have "\<bar>f64_round (s + c) - (J + 1) * c\<bar>
          \<le> \<bar>f64_round (s + c) - (s + c)\<bar> + \<bar>s - c * J\<bar>"
    by (simp add: algebra_simps)
  also have "\<dots> \<le> (s + c) / 2 ^ 53 + c * (J\<^sup>2 / 2 ^ 53)"
    using r s' by linarith
  also have "\<dots> \<le> (c * J + c * (J\<^sup>2 / 2 ^ 53) + c) / 2 ^ 53 + c * (J\<^sup>2 / 2 ^ 53)"
    using up by (simp add: divide_right_mono)
  also have "\<dots> \<le> (J + 1)\<^sup>2 * c / 2 ^ 53"
    using keyc2 by (simp add: power2_eq_square algebra_simps add_divide_distrib)
  finally have "\<bar>f64_round (s + c) - (J + 1) * c\<bar> \<le> (J + 1)\<^sup>2 * c / 2 ^ 53" .
  then have "\<bar>f64_round (s + c) - real (Suc j) * c\<bar> \<le> (real (Suc j))\<^sup>2 * c / 2 ^ 53"
    by (simp add: J_def add.commute)
  with first show ?thesis by simp
qed

lemma accumulate_run:
  fixes c s :: real and j k :: nat
  assumes c: "1 / 2 ^ 1022 \<le> c" "c \<le> 1"
    and jk: "real (j + k) \<le> 2 ^ 53"
    and s: "\<bar>s - real j * c\<bar> \<le> (real j)\<^sup>2 * c / 2 ^ 53"
  shows "\<exists>t. repeated_add k (Finite c) (Finite s) = Finite t \<and>
           \<bar>t - real (j + k) * c\<bar> \<le> (real (j + k))\<^sup>2 * c / 2 ^ 53"
  using jk s
proof (induction k arbitrary: j s)
  case 0
  then show ?case by simp
next
  case (Suc k)
  from Suc.prems(1) have j: "real j < 2 ^ 53" by simp
  note st = accumulate_step[OF c j Suc.prems(2)]
  from Suc.prems(1) have "real (Suc j + k) \<le> 2 ^ 53" by simp
  from Suc.IH[OF this conjunct2[OF st]] obtain t where
    t: "repeated_add k (Finite c) (Finite (f64_round (s + c))) = Finite t"
      "\<bar>t - real (Suc j + k) * c\<bar> \<le> (real (Suc j + k))\<^sup>2 * c / 2 ^ 53"
    by blast
  have "repeated_add (Suc k) (Finite c) (Finite s) = Finite t"
    using t(1) conjunct1[OF st] by simp
  with t(2) show ?case by simp
qed

lemma accumulated:
  fixes c0 :: real and N :: nat
  assumes c0: "1 / 2 ^ 1000 \<le> c0" "c0 \<le> 1 / 2" and N: "real N \<le> 2 ^ 53"
  shows "\<exists>t. repeated_add N (f64 c0) (Finite 0) = Finite t \<and>
           \<bar>t - real N * c0\<bar> \<le> real N * c0 * (real N + 2) / 2 ^ 53"
proof -
  define c where "c = f64_round c0"
  have c0pos: "0 < c0" using c0(1) by (rule less_le_trans[rotated]) simp
  have "(1::real) / 2 ^ 1022 \<le> 1 / 2 ^ 1000" by simp
  with c0(1) have "1 / 2 ^ 1022 \<le> \<bar>c0\<bar>" by simp
  then have rel: "\<bar>c - c0\<bar> \<le> c0 / 2 ^ 53"
    unfolding c_def using f64_round_relative[of c0] c0pos by simp
  then have cup: "c \<le> c0 + c0 / 2 ^ 53" and clo: "c0 - c0 / 2 ^ 53 \<le> c"
    by linarith+
  have c1: "c \<le> 1" using cup c0(2) by simp
  have "(1::real) / 2 ^ 1022 \<le> 1 / 2 ^ 1000 - (1 / 2 ^ 1000) / 2 ^ 53" by simp
  also have "\<dots> \<le> c0 - c0 / 2 ^ 53" using c0(1) by simp
  finally have cn: "1 / 2 ^ 1022 \<le> c" using clo by simp
  have lit: "f64 c0 = Finite c"
    unfolding c_def using c0 c0pos by (intro f64_finite) simp
  have "\<bar>0 - real 0 * c\<bar> \<le> (real 0)\<^sup>2 * c / 2 ^ 53" by simp
  from accumulate_run[OF cn c1 _ this, of N] N obtain t where
    t: "repeated_add N (Finite c) (Finite 0) = Finite t"
      "\<bar>t - real N * c\<bar> \<le> (real N)\<^sup>2 * c / 2 ^ 53"
    by auto
  define n where "n = real N"
  have n: "0 \<le> n" "n \<le> 2 ^ 53" using N by (simp_all add: n_def)
  have "n * n \<le> n * 2 ^ 53" using n by (intro mult_left_mono) simp_all
  then have nn: "n\<^sup>2 / 2 ^ 53 \<le> n" by (simp add: power2_eq_square)
  have a1: "n\<^sup>2 * c / 2 ^ 53 \<le> n\<^sup>2 * (c0 + c0 / 2 ^ 53) / 2 ^ 53"
    using cup by (intro divide_right_mono mult_left_mono) simp_all
  have a2: "c0 * (n\<^sup>2 / 2 ^ 53) / 2 ^ 53 \<le> c0 * n / 2 ^ 53"
    using nn c0pos by (intro divide_right_mono mult_left_mono) simp_all
  have a3: "\<bar>n * c - n * c0\<bar> \<le> n * (c0 / 2 ^ 53)"
  proof -
    have "\<bar>n * c - n * c0\<bar> = n * \<bar>c - c0\<bar>"
      using n(1) by (simp add: abs_mult right_diff_distrib[symmetric])
    also have "\<dots> \<le> n * (c0 / 2 ^ 53)" using rel n(1) by (intro mult_left_mono)
    finally show ?thesis .
  qed
  have t2: "\<bar>t - n * c\<bar> \<le> n\<^sup>2 * c / 2 ^ 53"
    using t(2) by (simp add: n_def)
  have "\<bar>t - n * c0\<bar> \<le> \<bar>t - n * c\<bar> + \<bar>n * c - n * c0\<bar>" by simp
  also have "\<dots> \<le> n\<^sup>2 * (c0 + c0 / 2 ^ 53) / 2 ^ 53 + n * (c0 / 2 ^ 53)"
    using t2 a1 a3 by linarith
  also have "\<dots> \<le> n * c0 * (n + 2) / 2 ^ 53"
    using a2 by (simp add: power2_eq_square algebra_simps add_divide_distrib)
  finally have "\<bar>t - real N * c0\<bar> \<le> real N * c0 * (real N + 2) / 2 ^ 53"
    by (simp add: n_def)
  with t(1) lit show ?thesis by simp
qed

section \<open>Roundings of particular values\<close>

lemma f64_round_1: "f64_round (1) = 1"
  by (subst f64_round_eval[of "0"])
    (simp_all add: power_int_minus_divide round_half_even_def)

lemma f64_round_2: "f64_round (2) = 2"
  by (subst f64_round_eval[of "1"])
    (simp_all add: power_int_minus_divide round_half_even_def)

lemma f64_round_3: "f64_round (3) = 3"
  by (subst f64_round_eval[of "1"])
    (simp_all add: power_int_minus_divide round_half_even_def)

lemma f64_round_10: "f64_round (10) = 10"
  by (subst f64_round_eval[of "3"])
    (simp_all add: power_int_minus_divide round_half_even_def)

lemma f64_round_half: "f64_round (1 / 2) = 1 / 2"
  by (subst f64_round_eval[of "- 1"])
    (simp_all add: power_int_minus_divide round_half_even_def)

lemma f64_round_quarter: "f64_round (1 / 4) = 1 / 4"
  by (subst f64_round_eval[of "- 2"])
    (simp_all add: power_int_minus_divide round_half_even_def)

lemma f64_round_grid: "f64_round (1 / 2 ^ 54) = 1 / 2 ^ 54"
  by (subst f64_round_eval[of "- 54"])
    (simp_all add: power_int_minus_divide round_half_even_def)

lemma f64_round_tiny: "f64_round (1 / 2 ^ 50) = 1 / 2 ^ 50"
  by (subst f64_round_eval[of "- 50"])
    (simp_all add: power_int_minus_divide round_half_even_def)

lemma f64_round_least: "f64_round (1 / 2 ^ 1022) = 1 / 2 ^ 1022"
  by (subst f64_round_eval[of "- 1022"])
    (simp_all add: power_int_minus_divide round_half_even_def)

lemma f64_round_below_half: "f64_round (1 / 2 - 1 / 2 ^ 54) = 1 / 2 - 1 / 2 ^ 54"
  by (subst f64_round_eval[of "- 2"])
    (simp_all add: power_int_minus_divide round_half_even_def)

lemma f64_round_below_ten: "f64_round ((1 / 2 - 1 / 2 ^ 54) * 20) = 5629499534213119 / 562949953421312"
  by (subst f64_round_eval[of "3"])
    (simp_all add: power_int_minus_divide round_half_even_def)

lemma f64_round_three_tenths: "f64_round (3 / 10) = 5404319552844595 / 18014398509481984"
  by (subst f64_round_eval[of "- 2"])
    (simp_all add: power_int_minus_divide round_half_even_def)

lemma f64_round_tenth: "f64_round (1 / 10) = 3602879701896397 / 36028797018963968"
  by (subst f64_round_eval[of "- 4"])
    (simp_all add: power_int_minus_divide round_half_even_def)

lemma f64_round_three_tenths_fix: "f64_round (5404319552844595 / 18014398509481984) = 5404319552844595 / 18014398509481984"
  by (subst f64_round_eval[of "- 2"])
    (simp_all add: power_int_minus_divide round_half_even_def)

lemma f64_round_tenth_fix: "f64_round (3602879701896397 / 36028797018963968) = 3602879701896397 / 36028797018963968"
  by (subst f64_round_eval[of "- 4"])
    (simp_all add: power_int_minus_divide round_half_even_def)

lemma f64_round_size_top: "f64_round (5404319552844595 / 18014398509481984 + 3602879701896397 / 36028797018963968) = 3602879701896397 / 9007199254740992"
  by (subst f64_round_eval[of "- 2"])
    (simp_all add: power_int_minus_divide round_half_even_def)

lemma f32_round_size_bottom: "f32_round (3602879701896397 / 36028797018963968) = 13421773 / 134217728"
  by (subst f32_round_eval[of "- 4"])
    (simp_all add: power_int_minus_divide round_half_even_def)

lemma f32_round_size_top: "f32_round (3602879701896397 / 9007199254740992) = 13421773 / 33554432"
  by (subst f32_round_eval[of "- 2"])
    (simp_all add: power_int_minus_divide round_half_even_def)

lemma f32_round_near_one: "f32_round (1 - 1 / 2 ^ 30) = 1"
  by (subst f32_round_eval[of "- 1"])
    (simp_all add: power_int_minus_divide round_half_even_def)

lemma f64_round_near_one_product: "f64_round ((1 - 1 / 2 ^ 30) * (5404319552844595 / 18014398509481984)) = 2702159773905715 / 9007199254740992"
  by (subst f64_round_eval[of "- 2"])
    (simp_all add: power_int_minus_divide round_half_even_def)

lemma f64_round_near_one_sum: "f64_round (2702159773905715 / 9007199254740992 + 3602879701896397 / 36028797018963968) = 1801439849689907 / 4503599627370496"
  by (subst f64_round_eval[of "- 2"])
    (simp_all add: power_int_minus_divide round_half_even_def)

lemma f32_round_near_one_size: "f32_round (1801439849689907 / 4503599627370496) = 13421773 / 33554432"
  by (subst f32_round_eval[of "- 2"])
    (simp_all add: power_int_minus_divide round_half_even_def)

lemma f64_round_grazing_draw: "f64_round (306397963 / 536870912) = 306397963 / 536870912"
  by (subst f64_round_eval[of "- 1"])
    (simp_all add: power_int_minus_divide round_half_even_def)

lemma f64_round_grazing_centred: "f64_round (306397963 / 536870912 - 1 / 2) = 37962507 / 536870912"
  by (subst f64_round_eval[of "- 4"])
    (simp_all add: power_int_minus_divide round_half_even_def)

lemma f64_round_grazing_scaled: "f64_round ((37962507 / 536870912) * 20) = 189812535 / 134217728"
  by (subst f64_round_eval[of "0"])
    (simp_all add: power_int_minus_divide round_half_even_def)

lemma f64_round_grazing_square: "f64_round ((189812535 / 134217728) * (189812535 / 134217728)) = 2251799902695389 / 1125899906842624"
  by (subst f64_round_eval[of "1"])
    (simp_all add: power_int_minus_divide round_half_even_def)

lemma f64_round_grazing_sum: "f64_round (2251799902695389 / 1125899906842624 + 2251799902695389 / 1125899906842624) = 2251799902695389 / 562949953421312"
  by (subst f64_round_eval[of "2"])
    (simp_all add: power_int_minus_divide round_half_even_def)

lemma f32_round_grazing: "f32_round (189812535 / 134217728) = 11863283 / 8388608"
  by (subst f32_round_eval[of "0"])
    (simp_all add: power_int_minus_divide round_half_even_def)

lemma f64_round_inner_draw: "f64_round (17 / 32) = 17 / 32"
  by (subst f64_round_eval[of "- 1"])
    (simp_all add: power_int_minus_divide round_half_even_def)

lemma f64_round_inner_centred: "f64_round (17 / 32 - 1 / 2) = 1 / 32"
  by (subst f64_round_eval[of "- 5"])
    (simp_all add: power_int_minus_divide round_half_even_def)

lemma f64_round_inner_scaled: "f64_round (1 / 32 * 20) = 5 / 8"
  by (subst f64_round_eval[of "- 1"])
    (simp_all add: power_int_minus_divide round_half_even_def)

lemma f64_round_hundredth: "f64_round (1 / 100) = 5764607523034235 / 576460752303423488"
  by (subst f64_round_eval[of "- 7"])
    (simp_all add: power_int_minus_divide round_half_even_def)

lemma f64_round_rotation_step: "f64_round (2 / 10000) = 7378697629483821 / 36893488147419103232"
  by (subst f64_round_eval[of "- 13"])
    (simp_all add: power_int_minus_divide round_half_even_def)

lemma f64_round_time_1: "f64_round (0 + 5764607523034235 / 576460752303423488) = 5764607523034235 / 576460752303423488"
  by (subst f64_round_eval[of "- 7"])
    (simp_all add: power_int_minus_divide round_half_even_def)

lemma f64_round_time_2: "f64_round (5764607523034235 / 576460752303423488 + 5764607523034235 / 576460752303423488) = 5764607523034235 / 288230376151711744"
  by (subst f64_round_eval[of "- 6"])
    (simp_all add: power_int_minus_divide round_half_even_def)

lemma f64_round_time_3: "f64_round (5764607523034235 / 288230376151711744 + 5764607523034235 / 576460752303423488) = 1080863910568919 / 36028797018963968"
  by (subst f64_round_eval[of "- 6"])
    (simp_all add: power_int_minus_divide round_half_even_def)

lemma f64_round_time_4: "f64_round (1080863910568919 / 36028797018963968 + 5764607523034235 / 576460752303423488) = 5764607523034235 / 144115188075855872"
  by (subst f64_round_eval[of "- 5"])
    (simp_all add: power_int_minus_divide round_half_even_def)

lemma f64_round_time_5: "f64_round (5764607523034235 / 144115188075855872 + 5764607523034235 / 576460752303423488) = 3602879701896397 / 72057594037927936"
  by (subst f64_round_eval[of "- 5"])
    (simp_all add: power_int_minus_divide round_half_even_def)

lemma f64_round_time_6: "f64_round (3602879701896397 / 72057594037927936 + 5764607523034235 / 576460752303423488) = 8646911284551353 / 144115188075855872"
  by (subst f64_round_eval[of "- 5"])
    (simp_all add: power_int_minus_divide round_half_even_def)

lemma f64_round_time_7: "f64_round (8646911284551353 / 144115188075855872 + 5764607523034235 / 576460752303423488) = 1261007895663739 / 18014398509481984"
  by (subst f64_round_eval[of "- 4"])
    (simp_all add: power_int_minus_divide round_half_even_def)

lemma f64_round_time_8: "f64_round (1261007895663739 / 18014398509481984 + 5764607523034235 / 576460752303423488) = 5764607523034235 / 72057594037927936"
  by (subst f64_round_eval[of "- 4"])
    (simp_all add: power_int_minus_divide round_half_even_def)

lemma f64_round_time_9: "f64_round (5764607523034235 / 72057594037927936 + 5764607523034235 / 576460752303423488) = 3242591731706757 / 36028797018963968"
  by (subst f64_round_eval[of "- 4"])
    (simp_all add: power_int_minus_divide round_half_even_def)

lemma f64_round_time_10: "f64_round (3242591731706757 / 36028797018963968 + 5764607523034235 / 576460752303423488) = 7205759403792793 / 72057594037927936"
  by (subst f64_round_eval[of "- 4"])
    (simp_all add: power_int_minus_divide round_half_even_def)

lemma f64_round_turn_1: "f64_round (0 + 7378697629483821 / 36893488147419103232) = 7378697629483821 / 36893488147419103232"
  by (subst f64_round_eval[of "- 13"])
    (simp_all add: power_int_minus_divide round_half_even_def)

lemma f64_round_turn_2: "f64_round (7378697629483821 / 36893488147419103232 + 7378697629483821 / 36893488147419103232) = 7378697629483821 / 18446744073709551616"
  by (subst f64_round_eval[of "- 12"])
    (simp_all add: power_int_minus_divide round_half_even_def)

lemma f64_round_turn_3: "f64_round (7378697629483821 / 18446744073709551616 + 7378697629483821 / 36893488147419103232) = 2767011611056433 / 4611686018427387904"
  by (subst f64_round_eval[of "- 11"])
    (simp_all add: power_int_minus_divide round_half_even_def)

lemma f64_round_turn_4: "f64_round (2767011611056433 / 4611686018427387904 + 7378697629483821 / 36893488147419103232) = 7378697629483821 / 9223372036854775808"
  by (subst f64_round_eval[of "- 11"])
    (simp_all add: power_int_minus_divide round_half_even_def)

lemma f64_round_turn_5: "f64_round (7378697629483821 / 9223372036854775808 + 7378697629483821 / 36893488147419103232) = 1152921504606847 / 1152921504606846976"
  by (subst f64_round_eval[of "- 10"])
    (simp_all add: power_int_minus_divide round_half_even_def)

lemma f64_round_turn_6: "f64_round (1152921504606847 / 1152921504606846976 + 7378697629483821 / 36893488147419103232) = 2767011611056433 / 2305843009213693952"
  by (subst f64_round_eval[of "- 10"])
    (simp_all add: power_int_minus_divide round_half_even_def)

lemma f64_round_turn_7: "f64_round (2767011611056433 / 2305843009213693952 + 7378697629483821 / 36893488147419103232) = 807045053224793 / 576460752303423488"
  by (subst f64_round_eval[of "- 10"])
    (simp_all add: power_int_minus_divide round_half_even_def)

lemma f64_round_turn_8: "f64_round (807045053224793 / 576460752303423488 + 7378697629483821 / 36893488147419103232) = 3689348814741911 / 2305843009213693952"
  by (subst f64_round_eval[of "- 10"])
    (simp_all add: power_int_minus_divide round_half_even_def)

lemma f64_round_turn_9: "f64_round (3689348814741911 / 2305843009213693952 + 7378697629483821 / 36893488147419103232) = 2075258708292325 / 1152921504606846976"
  by (subst f64_round_eval[of "- 10"])
    (simp_all add: power_int_minus_divide round_half_even_def)

lemma f64_round_turn_10: "f64_round (2075258708292325 / 1152921504606846976 + 7378697629483821 / 36893488147419103232) = 4611686018427389 / 2305843009213693952"
  by (subst f64_round_eval[of "- 9"])
    (simp_all add: power_int_minus_divide round_half_even_def)

lemma f64_round_ten_hundredths: "f64_round (10 * (5764607523034235 / 576460752303423488)) = 3602879701896397 / 36028797018963968"
  by (subst f64_round_eval[of "- 4"])
    (simp_all add: power_int_minus_divide round_half_even_def)

section \<open>Drawn coordinates and computed distances\<close>

lemma f64_grid:
  assumes rep: "f64_round r = r" and lo: "1 / 4 \<le> r" and hi: "r < 1"
  shows "\<exists>m::int. r = of_int m / 2 ^ 54"
proof -
  let ?e = "bin_exponent (- 1022) 1023 r"
  have q: "bin_exponent (- 1022) 1023 (1 / 4) = - 2"
    by (rule bin_exponent_eqI) (simp_all add: power_int_minus_divide)
  have "bin_exponent (- 1022) 1023 (1 / 4) \<le> ?e"
    using lo by (intro bin_exponent_mono) simp
  then have e_lo: "- 2 \<le> ?e" by (simp only: q)
  have e_hi: "?e \<le> - 1"
  proof (rule ccontr)
    assume "\<not> ?e \<le> - 1"
    then have pos: "0 \<le> ?e" by simp
    then have "2 powi ?e \<le> \<bar>r\<bar>" by (intro bin_exponent_lower) simp_all
    moreover have "(2::real) powi 0 \<le> 2 powi ?e"
      using pos by (intro power_int_increasing) simp_all
    ultimately show False using hi lo by simp
  qed
  define n where "n = round_half_even (r / 2 powi (?e - 52))"
  have r: "r = of_int n * 2 powi (?e - 52)"
    using rep by (simp add: f64_round_def bin_round_def bin_ulp_def n_def)
  from e_lo e_hi consider "?e = - 2" | "?e = - 1" by linarith
  then show ?thesis
  proof cases
    case 1
    with r have "r = of_int n / 2 ^ 54" by (simp add: power_int_minus_divide)
    then show ?thesis ..
  next
    case 2
    with r have "r = of_int (2 * n) / 2 ^ 54" by (simp add: power_int_minus_divide)
    then show ?thesis ..
  qed
qed

lemma f64_below_one:
  assumes "f64_round r = r" "r < 1"
  shows "r \<le> 1 - 1 / 2 ^ 54"
proof (cases "1 / 4 \<le> r")
  case True
  from f64_grid[OF assms(1) True assms(2)] obtain m :: int where m: "r = of_int m / 2 ^ 54"
    by blast
  with assms(2) have "real_of_int m < 2 ^ 54" by simp
  then have "real_of_int m < real_of_int (2 ^ 54)" by simp
  then have "m < 2 ^ 54" by (simp only: of_int_less_iff)
  then have "m \<le> 2 ^ 54 - 1" by simp
  then have "real_of_int m \<le> real_of_int (2 ^ 54 - 1)" by (simp only: of_int_le_iff)
  then show ?thesis unfolding m by (simp add: field_simps)
next
  case False
  then show ?thesis by simp
qed

lemma f64_centred:
  assumes rep: "f64_round r = r" and "0 \<le> r" "r < 1"
  shows "f64_round (r - 1 / 2) = 0 \<or> 1 / 2 ^ 54 \<le> \<bar>f64_round (r - 1 / 2)\<bar>"
proof -
  consider "r \<le> 1 / 4" | "3 / 4 \<le> r" | "1 / 4 < r" "r < 3 / 4" by linarith
  then show ?thesis
  proof cases
    case 1
    then have "f64_round (r - 1 / 2) \<le> f64_round (- (1 / 4))"
      by (intro f64_round_mono) simp
    then have "f64_round (r - 1 / 2) \<le> - (1 / 4)"
      by (simp only: f64_round_minus f64_round_quarter)
    then show ?thesis by simp
  next
    case 2
    then have "f64_round (1 / 4) \<le> f64_round (r - 1 / 2)"
      by (intro f64_round_mono) simp
    then have "1 / 4 \<le> f64_round (r - 1 / 2)"
      by (simp only: f64_round_quarter)
    then show ?thesis by simp
  next
    case 3
    then have "1 / 4 \<le> r" by simp
    from f64_grid[OF rep this assms(3)] obtain m :: int where m: "r = of_int m / 2 ^ 54"
      by blast
    have diff: "r - 1 / 2 = of_int (m - 2 ^ 53) / 2 ^ 54"
      unfolding m by (simp add: field_simps)
    consider "m - 2 ^ 53 = 0" | "1 \<le> m - 2 ^ 53" | "m - 2 ^ 53 \<le> - 1" by linarith
    then show ?thesis
    proof cases
      case 1
      with diff have "r - 1 / 2 = 0" by simp
      then have "f64_round (r - 1 / 2) = 0" by (simp only: f64_round_0)
      then show ?thesis ..
    next
      case 2
      then have "real_of_int 1 \<le> real_of_int (m - 2 ^ 53)" by (simp only: of_int_le_iff)
      then have "1 / 2 ^ 54 \<le> r - 1 / 2"
        unfolding diff by (simp add: divide_right_mono)
      then have "f64_round (1 / 2 ^ 54) \<le> f64_round (r - 1 / 2)"
        by (rule f64_round_mono)
      then have "1 / 2 ^ 54 \<le> f64_round (r - 1 / 2)"
        by (simp only: f64_round_grid)
      then show ?thesis by simp
    next
      case 3
      then have "real_of_int (m - 2 ^ 53) \<le> real_of_int (- 1)" by (simp only: of_int_le_iff)
      then have "r - 1 / 2 \<le> - (1 / 2 ^ 54)"
        unfolding diff by (simp add: divide_right_mono)
      then have "f64_round (r - 1 / 2) \<le> f64_round (- (1 / 2 ^ 54))"
        by (rule f64_round_mono)
      then have "f64_round (r - 1 / 2) \<le> - (1 / 2 ^ 54)"
        by (simp only: f64_round_minus f64_round_grid)
      then show ?thesis by simp
    qed
  qed
qed

lemma coordinate_Finite:
  assumes rep: "f64_round r = r" and r: "0 \<le> r" "r < 1"
  shows "\<exists>a. coordinate (Finite r) = Finite a \<and> - 10 \<le> a \<and> a < 10 \<and>
           (a = 0 \<or> 1 / 2 ^ 50 \<le> \<bar>a\<bar>)"
proof -
  define v where "v = f64_round (r - 1 / 2)"
  define a where "a = f64_round (v * 20)"
  have "r \<le> 1 - 1 / 2 ^ 54" using rep r(2) by (rule f64_below_one)
  then have "r - 1 / 2 \<le> 1 / 2 - 1 / 2 ^ 54" by simp
  then have "v \<le> f64_round (1 / 2 - 1 / 2 ^ 54)"
    unfolding v_def by (rule f64_round_mono)
  then have v_hi: "v \<le> 1 / 2 - 1 / 2 ^ 54" by (simp only: f64_round_below_half)
  have "f64_round (- (1 / 2)) \<le> v"
    unfolding v_def using r(1) by (intro f64_round_mono) simp
  then have v_lo: "- (1 / 2) \<le> v" by (simp only: f64_round_minus f64_round_half)
  have v_grid: "v = 0 \<or> 1 / 2 ^ 54 \<le> \<bar>v\<bar>"
    unfolding v_def using rep r by (rule f64_centred)
  have sub: "num_sub (Finite r) (Finite (1 / 2)) = Finite v"
    using r by (simp add: num_sub_def v_def f64_finite)
  have "\<bar>v * 20\<bar> \<le> 2 ^ 1023"
  proof -
    have "\<bar>v * 20\<bar> \<le> 10" using v_lo v_hi by simp
    also have "\<dots> \<le> (2::real) ^ 1023" by simp
    finally show ?thesis .
  qed
  then have mul: "num_mul (Finite v) (Finite 20) = Finite a"
    by (simp add: a_def f64_finite)
  have "v * 20 \<le> (1 / 2 - 1 / 2 ^ 54) * 20" using v_hi by simp
  then have "a \<le> f64_round ((1 / 2 - 1 / 2 ^ 54) * 20)"
    unfolding a_def by (rule f64_round_mono)
  then have "a \<le> 5629499534213119 / 562949953421312" by (simp only: f64_round_below_ten)
  then have a_hi: "a < 10" by simp
  have "f64_round (- 10) \<le> a"
    unfolding a_def using v_lo by (intro f64_round_mono) simp
  then have a_lo: "- 10 \<le> a" by (simp only: f64_round_minus f64_round_10)
  have a_grid: "a = 0 \<or> 1 / 2 ^ 50 \<le> \<bar>a\<bar>"
  proof -
    consider "v = 0" | "1 / 2 ^ 54 \<le> v" | "v \<le> - (1 / 2 ^ 54)"
      using v_grid by (auto simp: abs_if split: if_splits)
    then show ?thesis
    proof cases
      case 1
      then show ?thesis by (simp add: a_def)
    next
      case 2
      then have "1 / 2 ^ 50 \<le> v * 20" by simp
      then have "f64_round (1 / 2 ^ 50) \<le> a"
        unfolding a_def by (rule f64_round_mono)
      then have "1 / 2 ^ 50 \<le> a" by (simp only: f64_round_tiny)
      then show ?thesis by simp
    next
      case 3
      then have "v * 20 \<le> - (1 / 2 ^ 50)" by simp
      then have "a \<le> f64_round (- (1 / 2 ^ 50))"
        unfolding a_def by (rule f64_round_mono)
      then have "a \<le> - (1 / 2 ^ 50)" by (simp only: f64_round_minus f64_round_tiny)
      then show ?thesis by simp
    qed
  qed
  have "coordinate (Finite r) = Finite a"
    by (simp only: coordinate_def sub mul)
  with a_lo a_hi a_grid show ?thesis by blast
qed

lemma f64_round_rel_bounds:
  assumes "0 \<le> x" "x = 0 \<or> 1 / 2 ^ 1022 \<le> x"
  shows "9007199254740991 * x \<le> 9007199254740992 * f64_round x"
    and "9007199254740992 * f64_round x \<le> 9007199254740993 * x"
    and "f64_round x = 0 \<or> 1 / 2 ^ 1022 \<le> f64_round x" and "0 \<le> f64_round x"
proof -
  show nonneg: "0 \<le> f64_round x" using assms(1) by (rule f64_round_nonneg)
  have both: "9007199254740991 * x \<le> 9007199254740992 * f64_round x \<and>
      9007199254740992 * f64_round x \<le> 9007199254740993 * x"
  proof (cases "x = 0")
    case True
    then show ?thesis by simp
  next
    case False
    with assms have "1 / 2 ^ 1022 \<le> \<bar>x\<bar>" by simp
    then have "\<bar>f64_round x - x\<bar> \<le> \<bar>x\<bar> / 2 ^ 53" by (rule f64_round_relative)
    then have "\<bar>f64_round x - x\<bar> \<le> x / 9007199254740992"
      using assms(1) by simp
    then have "f64_round x - x \<le> x / 9007199254740992"
      and "- (x / 9007199254740992) \<le> f64_round x - x"
      by (simp_all only: abs_le_iff minus_diff_eq) argo+
    then show ?thesis by argo
  qed
  then show "9007199254740991 * x \<le> 9007199254740992 * f64_round x"
    and "9007199254740992 * f64_round x \<le> 9007199254740993 * x"
    by simp_all
  show "f64_round x = 0 \<or> 1 / 2 ^ 1022 \<le> f64_round x"
  proof (cases "x = 0")
    case True
    then show ?thesis by simp
  next
    case False
    with assms have "1 / 2 ^ 1022 \<le> x" by simp
    then have "f64_round (1 / 2 ^ 1022) \<le> f64_round x" by (rule f64_round_mono)
    then show ?thesis by (simp only: f64_round_least) simp
  qed
qed

lemma square_normal:
  fixes a :: real
  assumes "a = 0 \<or> 1 / 2 ^ 50 \<le> \<bar>a\<bar>"
  shows "a * a = 0 \<or> 1 / 2 ^ 1022 \<le> a * a"
proof (cases "a = 0")
  case True
  then show ?thesis by simp
next
  case False
  with assms have "1 / 2 ^ 50 \<le> \<bar>a\<bar>" by simp
  then have "(1 / 2 ^ 50) * (1 / 2 ^ 50) \<le> \<bar>a\<bar> * \<bar>a\<bar>"
    by (intro mult_mono) simp_all
  then have "1 / 2 ^ 100 \<le> a * a" by simp
  moreover have "(1::real) / 2 ^ 1022 \<le> 1 / 2 ^ 100" by simp
  ultimately show ?thesis by simp
qed

lemma distance_bounds:
  fixes a b c :: real
  assumes a: "a = 0 \<or> 1 / 2 ^ 50 \<le> \<bar>a\<bar>" "\<bar>a\<bar> \<le> 10"
    and b: "b = 0 \<or> 1 / 2 ^ 50 \<le> \<bar>b\<bar>" "\<bar>b\<bar> \<le> 10"
    and c: "c = 0 \<or> 1 / 2 ^ 50 \<le> \<bar>c\<bar>" "\<bar>c\<bar> \<le> 10"
  shows "\<exists>D. distance_of (Finite a) (Finite b) (Finite c) = Finite D \<and> 0 \<le> D \<and>
           (1 - 1 / 2 ^ 50) * (a\<^sup>2 + b\<^sup>2 + c\<^sup>2) \<le> D\<^sup>2 \<and>
           D\<^sup>2 \<le> (1 + 1 / 2 ^ 50) * (a\<^sup>2 + b\<^sup>2 + c\<^sup>2) \<and>
           (D = 0 \<or> 1 / 2 ^ 1022 \<le> D)"
proof -
  define qa qb qc where "qa = a * a" and "qb = b * b" and "qc = c * c"
  define pa pb pc where "pa = f64_round qa" and "pb = f64_round qb" and "pc = f64_round qc"
  define A where "A = f64_round (pa + pb)"
  define S where "S = f64_round (A + pc)"
  define D where "D = f64_round (sqrt S)"
  have q0: "0 \<le> qa" "0 \<le> qb" "0 \<le> qc" by (simp_all add: qa_def qb_def qc_def)
  have q100: "qa \<le> 100" "qb \<le> 100" "qc \<le> 100"
  proof -
    have "\<bar>a\<bar> * \<bar>a\<bar> \<le> 10 * 10" "\<bar>b\<bar> * \<bar>b\<bar> \<le> 10 * 10" "\<bar>c\<bar> * \<bar>c\<bar> \<le> 10 * 10"
      using a(2) b(2) c(2) by (intro mult_mono; simp)+
    then show "qa \<le> 100" "qb \<le> 100" "qc \<le> 100" by (simp_all add: qa_def qb_def qc_def)
  qed
  have qn: "qa = 0 \<or> 1 / 2 ^ 1022 \<le> qa" "qb = 0 \<or> 1 / 2 ^ 1022 \<le> qb"
    "qc = 0 \<or> 1 / 2 ^ 1022 \<le> qc"
    unfolding qa_def qb_def qc_def using a(1) b(1) c(1) by (simp_all only: square_normal)
  note ra = f64_round_rel_bounds[OF q0(1) qn(1), folded pa_def]
  note rb = f64_round_rel_bounds[OF q0(2) qn(2), folded pb_def]
  note rc = f64_round_rel_bounds[OF q0(3) qn(3), folded pc_def]
  have ab0: "0 \<le> pa + pb" using ra(4) rb(4) by simp
  have abn: "pa + pb = 0 \<or> 1 / 2 ^ 1022 \<le> pa + pb"
    using ra(3,4) rb(3,4) by linarith
  note rA = f64_round_rel_bounds[OF ab0 abn, folded A_def]
  have s0: "0 \<le> A + pc" using rA(4) rc(4) by simp
  have sn: "A + pc = 0 \<or> 1 / 2 ^ 1022 \<le> A + pc"
    using rA(3,4) rc(3,4) by linarith
  note rS = f64_round_rel_bounds[OF s0 sn, folded S_def]
  have t0: "0 \<le> sqrt S" using rS(4) by simp
  have tn: "sqrt S = 0 \<or> 1 / 2 ^ 1022 \<le> sqrt S"
  proof (cases "S = 0")
    case True
    then show ?thesis by simp
  next
    case False
    with rS(3) have "1 / 2 ^ 1022 \<le> S" by simp
    moreover have "((1::real) / 2 ^ 1022)\<^sup>2 \<le> 1 / 2 ^ 1022"
      by (simp add: power2_eq_square)
    ultimately have "(1 / 2 ^ 1022)\<^sup>2 \<le> S" by linarith
    then have "1 / 2 ^ 1022 \<le> sqrt S" by (rule real_le_rsqrt)
    then show ?thesis ..
  qed
  note rD = f64_round_rel_bounds[OF t0 tn, folded D_def]
  have pa_fin: "num_mul (Finite a) (Finite a) = Finite pa"
    and pb_fin: "num_mul (Finite b) (Finite b) = Finite pb"
    and pc_fin: "num_mul (Finite c) (Finite c) = Finite pc"
    using q0 q100 unfolding pa_def pb_def pc_def qa_def qb_def qc_def
    by (simp_all add: f64_finite)
  have p_hi: "pa \<le> 101" "pb \<le> 101" "pc \<le> 101"
    using ra(2) rb(2) rc(2) q100 q0 by linarith+
  have A_fin: "num_add (Finite pa) (Finite pb) = Finite A"
    using p_hi ra(4) rb(4) unfolding A_def by (simp add: f64_finite)
  have A_hi: "A \<le> 203" using rA(2) p_hi ab0 by argo
  have S_fin: "num_add (Finite A) (Finite pc) = Finite S"
    using A_hi p_hi rA(4) rc(4) unfolding S_def by (simp add: f64_finite)
  have S_hi: "S \<le> 305" using rS(2) A_hi p_hi s0 by argo
  have "sqrt S \<le> 2 ^ 1023"
    using S_hi rS(4) by (intro real_le_lsqrt) simp_all
  then have D_fin: "num_sqrt (Finite S) = Finite D"
    using rS(4) t0 unfolding D_def by (simp add: f64_finite)
  have dist: "distance_of (Finite a) (Finite b) (Finite c) = Finite D"
    by (simp only: distance_of_def pa_fin pb_fin pc_fin A_fin S_fin D_fin)
  have sq: "(sqrt S)\<^sup>2 = S" using rS(4) by simp
  have "(9007199254740992 * D)\<^sup>2 \<le> (9007199254740993 * sqrt S)\<^sup>2"
    using rD(2,4) by (intro power_mono) simp_all
  then have D_up: "9007199254740992\<^sup>2 * D\<^sup>2 \<le> 9007199254740993\<^sup>2 * S"
    by (simp only: power_mult_distrib sq)
  have "(9007199254740991 * sqrt S)\<^sup>2 \<le> (9007199254740992 * D)\<^sup>2"
    using rD(1) t0 by (intro power_mono) simp_all
  then have D_lo: "9007199254740991\<^sup>2 * S \<le> 9007199254740992\<^sup>2 * D\<^sup>2"
    by (simp only: power_mult_distrib sq)
  have Q: "a\<^sup>2 + b\<^sup>2 + c\<^sup>2 = qa + qb + qc"
    by (simp add: qa_def qb_def qc_def power2_eq_square)
  have D_up': "81129638414606681695789005144064 * D\<^sup>2
      \<le> 81129638414606699710187514626049 * S"
    using D_up by simp
  have D_lo': "81129638414606663681390495662081 * S
      \<le> 81129638414606681695789005144064 * D\<^sup>2"
    using D_lo by simp
  have "1125899906842624 * D\<^sup>2 \<le> 1125899906842625 * (qa + qb + qc)"
    using D_up' rS(2) rA(2) ra(2) rb(2) rc(2) q0 by argo
  then have up: "D\<^sup>2 \<le> (1 + 1 / 2 ^ 50) * (qa + qb + qc)"
    by simp
  have "1125899906842623 * (qa + qb + qc) \<le> 1125899906842624 * D\<^sup>2"
    using D_lo' rS(1) rA(1) ra(1) rb(1) rc(1) q0 by argo
  then have lo: "(1 - 1 / 2 ^ 50) * (qa + qb + qc) \<le> D\<^sup>2"
    by simp
  from dist rD(4) lo up rD(3) show ?thesis unfolding Q by blast
qed

lemma f64_round_abs: "f64_round \<bar>x\<bar> = \<bar>f64_round x\<bar>"
proof (cases "0 \<le> x")
  case True
  then show ?thesis by (simp add: f64_round_nonneg)
next
  case False
  then have "0 \<le> - x" by simp
  then have "0 \<le> f64_round (- x)" by (rule f64_round_nonneg)
  then have "f64_round x \<le> 0" by (simp add: f64_round_minus)
  with False show ?thesis by (simp add: f64_round_minus)
qed

lemma scaled_component:
  fixes a sc :: real
  assumes sc: "1 \<le> sc" and a: "a = 0 \<or> 1 / 2 ^ 50 \<le> \<bar>a\<bar>" and le: "(a * sc)\<^sup>2 \<le> 9"
  shows "\<exists>X. num_mul (Finite a) (Finite sc) = Finite X \<and> \<bar>X\<bar> \<le> 10 \<and>
      81129638414606663681390495662081 * (a * sc)\<^sup>2 \<le> 81129638414606681695789005144064 * X\<^sup>2 \<and>
      81129638414606681695789005144064 * X\<^sup>2 \<le> 81129638414606699710187514626049 * (a * sc)\<^sup>2"
proof -
  define ua where "ua = \<bar>a * sc\<bar>"
  define X where "X = f64_round (a * sc)"
  have ua0: "0 \<le> ua" by (simp add: ua_def)
  have "ua\<^sup>2 \<le> 3\<^sup>2" using le by (simp add: ua_def)
  then have ua3: "ua \<le> 3" by (rule power2_le_imp_le) simp
  have uan: "ua = 0 \<or> 1 / 2 ^ 1022 \<le> ua"
  proof (cases "a = 0")
    case True
    then show ?thesis by (simp add: ua_def)
  next
    case False
    with a have "1 / 2 ^ 50 \<le> \<bar>a\<bar>" by simp
    then have "(1 / 2 ^ 50) * 1 \<le> \<bar>a\<bar> * sc"
      using sc by (intro mult_mono) simp_all
    then have "1 / 2 ^ 50 \<le> ua" using sc by (simp add: ua_def abs_mult)
    moreover have "(1::real) / 2 ^ 1022 \<le> 1 / 2 ^ 50" by simp
    ultimately show ?thesis by linarith
  qed
  note r = f64_round_rel_bounds[OF ua0 uan]
  have absX: "f64_round ua = \<bar>X\<bar>" unfolding ua_def X_def by (rule f64_round_abs)
  have "\<bar>a * sc\<bar> \<le> 2 ^ 1023"
  proof -
    have "\<bar>a * sc\<bar> \<le> 3" using ua3 by (simp only: ua_def)
    also have "\<dots> \<le> (2::real) ^ 1023" by simp
    finally show ?thesis .
  qed
  then have fin: "num_mul (Finite a) (Finite sc) = Finite X"
    by (simp add: X_def f64_finite)
  have X10: "\<bar>X\<bar> \<le> 10" using r(2) ua3 unfolding absX by argo
  have "(9007199254740991 * ua)\<^sup>2 \<le> (9007199254740992 * \<bar>X\<bar>)\<^sup>2"
    using r(1) ua0 unfolding absX by (intro power_mono) simp_all
  then have lo: "81129638414606663681390495662081 * (a * sc)\<^sup>2
      \<le> 81129638414606681695789005144064 * X\<^sup>2"
    by (simp add: power_mult_distrib ua_def)
  have "(9007199254740992 * \<bar>X\<bar>)\<^sup>2 \<le> (9007199254740993 * ua)\<^sup>2"
    using r(2) unfolding absX by (intro power_mono) simp_all
  then have up: "81129638414606681695789005144064 * X\<^sup>2
      \<le> 81129638414606699710187514626049 * (a * sc)\<^sup>2"
    by (simp add: power_mult_distrib ua_def)
  from fin X10 lo up show ?thesis by blast
qed

lemma f32_round_sq_lower:
  assumes "\<bar>x\<bar> \<le> 10"
  shows "x\<^sup>2 * (1 - 1 / 2 ^ 23) - 20 / 2 ^ 150 \<le> (f32_round x)\<^sup>2"
proof -
  define t where "t = f32_round x - x"
  have t: "\<bar>t\<bar> \<le> \<bar>x\<bar> / 2 ^ 24 + 1 / 2 ^ 150"
    unfolding t_def by (rule f32_round_close)
  have "\<bar>x\<bar> * \<bar>t\<bar> \<le> \<bar>x\<bar> * (\<bar>x\<bar> / 2 ^ 24 + 1 / 2 ^ 150)"
    using t by (intro mult_left_mono) simp_all
  also have "\<dots> = x\<^sup>2 / 2 ^ 24 + \<bar>x\<bar> / 2 ^ 150"
    by (simp add: algebra_simps power2_eq_square)
  also have "\<dots> \<le> x\<^sup>2 / 2 ^ 24 + 10 / 2 ^ 150"
    using assms by simp
  finally have xt: "\<bar>x\<bar> * \<bar>t\<bar> \<le> x\<^sup>2 / 2 ^ 24 + 10 / 2 ^ 150" .
  have "- (\<bar>x\<bar> * \<bar>t\<bar>) \<le> x * t"
    by (metis abs_mult minus_le_iff abs_ge_minus_self)
  then have "x\<^sup>2 - 2 * (\<bar>x\<bar> * \<bar>t\<bar>) \<le> x\<^sup>2 + 2 * (x * t) + t\<^sup>2"
    using zero_le_power2[of t] by linarith
  also have "\<dots> = (f32_round x)\<^sup>2"
    unfolding t_def by (simp add: power2_eq_square algebra_simps)
  finally show ?thesis using xt by simp
qed

lemma f32_round_sq_upper:
  assumes "\<bar>x\<bar> \<le> 10"
  shows "(f32_round x)\<^sup>2 \<le> x\<^sup>2 * (1 + 1 / 2 ^ 23) + 17 / 2 ^ 44"
proof -
  define t where "t = f32_round x - x"
  have t: "\<bar>t\<bar> \<le> \<bar>x\<bar> / 2 ^ 24 + 1 / 2 ^ 150"
    unfolding t_def by (rule f32_round_close)
  have t_small: "\<bar>t\<bar> \<le> 1 / 2 ^ 20" using t assms by simp
  have "\<bar>x\<bar> * \<bar>t\<bar> \<le> \<bar>x\<bar> * (\<bar>x\<bar> / 2 ^ 24 + 1 / 2 ^ 150)"
    using t by (intro mult_left_mono) simp_all
  also have "\<dots> = x\<^sup>2 / 2 ^ 24 + \<bar>x\<bar> / 2 ^ 150"
    by (simp add: algebra_simps power2_eq_square)
  also have "\<dots> \<le> x\<^sup>2 / 2 ^ 24 + 10 / 2 ^ 150"
    using assms by simp
  finally have xt: "\<bar>x\<bar> * \<bar>t\<bar> \<le> x\<^sup>2 / 2 ^ 24 + 10 / 2 ^ 150" .
  have "\<bar>t\<bar> * \<bar>t\<bar> \<le> (1 / 2 ^ 20) * (1 / 2 ^ 20)"
    using t_small by (intro mult_mono) simp_all
  then have tt: "t\<^sup>2 \<le> 1 / 2 ^ 40" by (simp add: power2_eq_square)
  have "x * t \<le> \<bar>x\<bar> * \<bar>t\<bar>"
    by (metis abs_mult abs_ge_self)
  then have "x\<^sup>2 + 2 * (x * t) + t\<^sup>2 \<le> x\<^sup>2 + 2 * (\<bar>x\<bar> * \<bar>t\<bar>) + 1 / 2 ^ 40"
    using tt by linarith
  moreover have "x\<^sup>2 + 2 * (x * t) + t\<^sup>2 = (f32_round x)\<^sup>2"
    unfolding t_def by (simp add: power2_eq_square algebra_simps)
  ultimately have "(f32_round x)\<^sup>2 \<le> x\<^sup>2 + 2 * (\<bar>x\<bar> * \<bar>t\<bar>) + 1 / 2 ^ 40" by simp
  then show ?thesis using xt by simp
qed

lemma stored_distance_lower:
  assumes "4 - 1 / 2 ^ 47 \<le> x\<^sup>2 + y\<^sup>2 + z\<^sup>2" "\<bar>x\<bar> \<le> 10" "\<bar>y\<bar> \<le> 10" "\<bar>z\<bar> \<le> 10"
  shows "2 - 1 / 2 ^ 22 \<le> sqrt ((f32_round x)\<^sup>2 + (f32_round y)\<^sup>2 + (f32_round z)\<^sup>2)"
proof -
  have "(2 - 1 / 2 ^ 22)\<^sup>2 \<le> (4 - 1 / 2 ^ 47) * (1 - 1 / 2 ^ 23) - 60 / (2::real) ^ 150"
    by (simp add: power2_eq_square)
  also have "\<dots> \<le> (x\<^sup>2 + y\<^sup>2 + z\<^sup>2) * (1 - 1 / 2 ^ 23) - 60 / 2 ^ 150"
    using assms(1) by simp
  also have "\<dots> \<le> (f32_round x)\<^sup>2 + (f32_round y)\<^sup>2 + (f32_round z)\<^sup>2"
    using f32_round_sq_lower[OF assms(2)] f32_round_sq_lower[OF assms(3)]
      f32_round_sq_lower[OF assms(4)]
    by (simp add: algebra_simps)
  finally show ?thesis by (rule real_le_rsqrt)
qed

lemma stored_distance_upper:
  assumes "x\<^sup>2 + y\<^sup>2 + z\<^sup>2 \<le> 4 + 1 / 2 ^ 47" "\<bar>x\<bar> \<le> 10" "\<bar>y\<bar> \<le> 10" "\<bar>z\<bar> \<le> 10"
  shows "sqrt ((f32_round x)\<^sup>2 + (f32_round y)\<^sup>2 + (f32_round z)\<^sup>2) \<le> 2 + 1 / 2 ^ 22"
proof -
  have "(f32_round x)\<^sup>2 + (f32_round y)\<^sup>2 + (f32_round z)\<^sup>2
      \<le> (x\<^sup>2 + y\<^sup>2 + z\<^sup>2) * (1 + 1 / 2 ^ 23) + 51 / 2 ^ 44"
    using f32_round_sq_upper[OF assms(2)] f32_round_sq_upper[OF assms(3)]
      f32_round_sq_upper[OF assms(4)]
    by argo
  also have "\<dots> \<le> (4 + 1 / 2 ^ 47) * (1 + 1 / 2 ^ 23) + 51 / 2 ^ 44"
    using assms(1) by simp
  also have "\<dots> \<le> (2 + 1 / 2 ^ 22)\<^sup>2"
    by (simp add: power2_eq_square)
  finally show ?thesis by (intro real_le_lsqrt) simp_all
qed

lemma rescale_factor:
  fixes D :: real
  assumes "0 < D" "D < 2" "1 / 2 ^ 1022 \<le> D"
  shows "\<exists>sc. num_div minDistance (Finite D) = Finite sc \<and> 1 \<le> sc \<and>
      81129638414606663681390495662081 * 4 \<le> 81129638414606681695789005144064 * (sc * D)\<^sup>2 \<and>
      81129638414606681695789005144064 * (sc * D)\<^sup>2 \<le> 81129638414606699710187514626049 * 4"
proof -
  define t where "t = 2 / D"
  define sc where "sc = f64_round t"
  have tD: "t * D = 2" using assms(1) by (simp add: t_def)
  have t1: "1 \<le> t" using assms(1,2) by (simp add: t_def)
  have "2 \<le> 2 ^ 1023 * D"
  proof -
    have "(2::real) = 2 ^ 1023 * (1 / 2 ^ 1022)" by simp
    also have "\<dots> \<le> 2 ^ 1023 * D" using assms(3) by (intro mult_left_mono) simp_all
    finally show ?thesis .
  qed
  then have t_hi: "t \<le> 2 ^ 1023" using assms(1) by (simp add: t_def pos_divide_le_eq)
  have "\<bar>2 / D\<bar> \<le> 2 ^ 1023" using t_hi t1 by (simp add: t_def)
  then have fin: "num_div minDistance (Finite D) = Finite sc"
    using assms(1) by (simp add: minDistance_def sc_def t_def f64_finite)
  have "f64_round 1 \<le> sc" unfolding sc_def using t1 by (rule f64_round_mono)
  then have sc1: "1 \<le> sc" by (simp only: f64_round_1)
  have t0: "0 \<le> t" using t1 by simp
  have tn: "t = 0 \<or> 1 / 2 ^ 1022 \<le> t"
  proof -
    have "(1::real) / 2 ^ 1022 \<le> 1" by simp
    then show ?thesis using t1 by linarith
  qed
  note r = f64_round_rel_bounds[OF t0 tn, folded sc_def]
  have "9007199254740991 * t * D \<le> 9007199254740992 * sc * D"
    using r(1) assms(1) by (intro mult_right_mono) simp_all
  then have g_lo: "9007199254740991 * 2 \<le> 9007199254740992 * (sc * D)"
    using tD by (simp add: mult.assoc)
  have "9007199254740992 * sc * D \<le> 9007199254740993 * t * D"
    using r(2) assms(1) by (intro mult_right_mono) simp_all
  then have g_hi: "9007199254740992 * (sc * D) \<le> 9007199254740993 * 2"
    using tD by (simp add: mult.assoc)
  have g0: "0 \<le> sc * D" using sc1 assms(1) by simp
  have "(9007199254740991 * 2)\<^sup>2 \<le> (9007199254740992 * (sc * D))\<^sup>2"
    using g_lo by (intro power_mono) simp_all
  then have lo: "81129638414606663681390495662081 * 4
      \<le> 81129638414606681695789005144064 * (sc * D)\<^sup>2"
    by (simp add: power_mult_distrib)
  have "(9007199254740992 * (sc * D))\<^sup>2 \<le> (9007199254740993 * 2)\<^sup>2"
    using g_hi g0 by (intro power_mono) simp_all
  then have up: "81129638414606681695789005144064 * (sc * D)\<^sup>2
      \<le> 81129638414606699710187514626049 * 4"
    by (simp add: power_mult_distrib)
  from fin sc1 lo up show ?thesis by blast
qed

lemma push_out_bounds:
  fixes a b c D :: real
  assumes a: "a = 0 \<or> 1 / 2 ^ 50 \<le> \<bar>a\<bar>" "\<bar>a\<bar> \<le> 10"
    and b: "b = 0 \<or> 1 / 2 ^ 50 \<le> \<bar>b\<bar>" "\<bar>b\<bar> \<le> 10"
    and c: "c = 0 \<or> 1 / 2 ^ 50 \<le> \<bar>c\<bar>" "\<bar>c\<bar> \<le> 10"
    and nz: "a \<noteq> 0 \<or> b \<noteq> 0 \<or> c \<noteq> 0"
    and dist: "distance_of (Finite a) (Finite b) (Finite c) = Finite D"
    and D0: "0 \<le> D"
    and lo: "(1 - 1 / 2 ^ 50) * (a\<^sup>2 + b\<^sup>2 + c\<^sup>2) \<le> D\<^sup>2"
    and up: "D\<^sup>2 \<le> (1 + 1 / 2 ^ 50) * (a\<^sup>2 + b\<^sup>2 + c\<^sup>2)"
    and Dn: "D = 0 \<or> 1 / 2 ^ 1022 \<le> D"
  shows "\<exists>x y z. push_out (Finite a) (Finite b) (Finite c) = (Finite x, Finite y, Finite z) \<and>
           \<bar>x\<bar> \<le> 10 \<and> \<bar>y\<bar> \<le> 10 \<and> \<bar>z\<bar> \<le> 10 \<and>
           4 - 1 / 2 ^ 47 \<le> x\<^sup>2 + y\<^sup>2 + z\<^sup>2 \<and>
           (D < 2 \<longrightarrow> x\<^sup>2 + y\<^sup>2 + z\<^sup>2 \<le> 4 + 1 / 2 ^ 47)"
proof (cases "D < 2")
  case False
  define Q where "Q = a\<^sup>2 + b\<^sup>2 + c\<^sup>2"
  have "2\<^sup>2 \<le> D\<^sup>2" using False by (intro power_mono) simp_all
  then have "4 \<le> D\<^sup>2" by simp
  moreover have "1125899906842624 * D\<^sup>2 \<le> 1125899906842625 * Q"
    using up unfolding Q_def by simp
  ultimately have "4 - 1 / 140737488355328 \<le> Q" by argo
  then have "4 - 1 / 2 ^ 47 \<le> a\<^sup>2 + b\<^sup>2 + c\<^sup>2" unfolding Q_def by simp
  moreover have "push_out (Finite a) (Finite b) (Finite c) = (Finite a, Finite b, Finite c)"
    using False by (simp add: push_out_def dist minDistance_def)
  ultimately show ?thesis using a(2) b(2) c(2) False by blast
next
  case True
  define Q where "Q = a\<^sup>2 + b\<^sup>2 + c\<^sup>2"
  have "0 < a\<^sup>2 \<or> 0 < b\<^sup>2 \<or> 0 < c\<^sup>2" using nz by simp
  moreover have "0 \<le> a\<^sup>2" "0 \<le> b\<^sup>2" "0 \<le> c\<^sup>2" by simp_all
  ultimately have Qpos: "0 < Q" unfolding Q_def by argo
  have "0 < (1 - 1 / 2 ^ 50) * Q" using Qpos by simp
  with lo have "0 < D\<^sup>2" unfolding Q_def by linarith
  then have "D \<noteq> 0" by auto
  with D0 Dn have Dpos: "0 < D" and Dnorm: "1 / 2 ^ 1022 \<le> D" by simp_all
  from rescale_factor[OF Dpos True Dnorm] obtain sc
    where sc: "num_div minDistance (Finite D) = Finite sc" and sc1: "1 \<le> sc"
      and g_lo: "81129638414606663681390495662081 * 4
                  \<le> 81129638414606681695789005144064 * (sc * D)\<^sup>2"
      and g_hi: "81129638414606681695789005144064 * (sc * D)\<^sup>2
                  \<le> 81129638414606699710187514626049 * 4"
    by (elim exE conjE) (rule that)
  define W where "W = Q * sc\<^sup>2"
  define g2 where "g2 = (sc * D)\<^sup>2"
  have W_sum: "(a * sc)\<^sup>2 + (b * sc)\<^sup>2 + (c * sc)\<^sup>2 = W"
    by (simp add: W_def Q_def power_mult_distrib algebra_simps)
  have lo': "1125899906842623 * Q \<le> 1125899906842624 * D\<^sup>2"
    using lo unfolding Q_def by simp
  have up': "1125899906842624 * D\<^sup>2 \<le> 1125899906842625 * Q"
    using up unfolding Q_def by simp
  have "1125899906842623 * Q * sc\<^sup>2 \<le> 1125899906842624 * D\<^sup>2 * sc\<^sup>2"
    using lo' by (intro mult_right_mono) simp_all
  then have W_lo: "1125899906842623 * W \<le> 1125899906842624 * g2"
    by (simp add: W_def g2_def power_mult_distrib algebra_simps)
  have "1125899906842624 * D\<^sup>2 * sc\<^sup>2 \<le> 1125899906842625 * Q * sc\<^sup>2"
    using up' by (intro mult_right_mono) simp_all
  then have W_up: "1125899906842624 * g2 \<le> 1125899906842625 * W"
    by (simp add: W_def g2_def power_mult_distrib algebra_simps)
  have sq0: "0 \<le> (a * sc)\<^sup>2" "0 \<le> (b * sc)\<^sup>2" "0 \<le> (c * sc)\<^sup>2" by simp_all
  have W9: "W \<le> 9" using W_lo g_hi unfolding g2_def by argo
  have le9: "(a * sc)\<^sup>2 \<le> 9" "(b * sc)\<^sup>2 \<le> 9" "(c * sc)\<^sup>2 \<le> 9"
    using W_sum W9 sq0 by linarith+
  from scaled_component[OF sc1 a(1) le9(1)] obtain x
    where x: "num_mul (Finite a) (Finite sc) = Finite x" "\<bar>x\<bar> \<le> 10"
      "81129638414606663681390495662081 * (a * sc)\<^sup>2 \<le> 81129638414606681695789005144064 * x\<^sup>2"
      "81129638414606681695789005144064 * x\<^sup>2 \<le> 81129638414606699710187514626049 * (a * sc)\<^sup>2"
    by (elim exE conjE) (rule that)
  from scaled_component[OF sc1 b(1) le9(2)] obtain y
    where y: "num_mul (Finite b) (Finite sc) = Finite y" "\<bar>y\<bar> \<le> 10"
      "81129638414606663681390495662081 * (b * sc)\<^sup>2 \<le> 81129638414606681695789005144064 * y\<^sup>2"
      "81129638414606681695789005144064 * y\<^sup>2 \<le> 81129638414606699710187514626049 * (b * sc)\<^sup>2"
    by (elim exE conjE) (rule that)
  from scaled_component[OF sc1 c(1) le9(3)] obtain z
    where z: "num_mul (Finite c) (Finite sc) = Finite z" "\<bar>z\<bar> \<le> 10"
      "81129638414606663681390495662081 * (c * sc)\<^sup>2 \<le> 81129638414606681695789005144064 * z\<^sup>2"
      "81129638414606681695789005144064 * z\<^sup>2 \<le> 81129638414606699710187514626049 * (c * sc)\<^sup>2"
    by (elim exE conjE) (rule that)
  have "4 - 1 / 140737488355328 \<le> x\<^sup>2 + y\<^sup>2 + z\<^sup>2"
    using x(3) y(3) z(3) W_sum W_up g_lo unfolding g2_def by argo
  then have sum_lo: "4 - 1 / 2 ^ 47 \<le> x\<^sup>2 + y\<^sup>2 + z\<^sup>2" by simp
  have "x\<^sup>2 + y\<^sup>2 + z\<^sup>2 \<le> 4 + 1 / 140737488355328"
    using x(4) y(4) z(4) W_sum W_lo g_hi unfolding g2_def by argo
  then have sum_up: "x\<^sup>2 + y\<^sup>2 + z\<^sup>2 \<le> 4 + 1 / 2 ^ 47" by simp
  have less: "num_less (Finite D) minDistance" using True by (simp add: minDistance_def)
  have "push_out (Finite a) (Finite b) (Finite c) = (Finite x, Finite y, Finite z)"
    by (simp only: push_out_def dist Let_def less if_True sc x(1) y(1) z(1))
  with x(2) y(2) z(2) sum_lo sum_up show ?thesis by blast
qed

lemma stored_position:
  assumes rep: "f64_round r1 = r1" "f64_round r2 = r2" "f64_round r3 = r3"
    and r: "0 \<le> r1" "r1 < 1" "0 \<le> r2" "r2 < 1" "0 \<le> r3" "r3 < 1"
  shows "\<exists>a b c D. coordinate (Finite r1) = Finite a \<and> coordinate (Finite r2) = Finite b \<and>
           coordinate (Finite r3) = Finite c \<and>
           - 10 \<le> a \<and> a < 10 \<and> - 10 \<le> b \<and> b < 10 \<and> - 10 \<le> c \<and> c < 10 \<and>
           distance_of (Finite a) (Finite b) (Finite c) = Finite D \<and> 0 \<le> D \<and>
           (1 - 1 / 2 ^ 50) * (a\<^sup>2 + b\<^sup>2 + c\<^sup>2) \<le> D\<^sup>2 \<and>
           D\<^sup>2 \<le> (1 + 1 / 2 ^ 50) * (a\<^sup>2 + b\<^sup>2 + c\<^sup>2) \<and>
           (a \<noteq> 0 \<or> b \<noteq> 0 \<or> c \<noteq> 0 \<longrightarrow>
             (\<exists>X Y Z. (case push_out (Finite a) (Finite b) (Finite c) of
                          (x, y, z) \<Rightarrow> fround x = Finite X \<and> fround y = Finite Y \<and> fround z = Finite Z) \<and>
                2 - 1 / 2 ^ 22 \<le> sqrt (X\<^sup>2 + Y\<^sup>2 + Z\<^sup>2) \<and>
                (D < 2 \<longrightarrow> sqrt (X\<^sup>2 + Y\<^sup>2 + Z\<^sup>2) \<le> 2 + 1 / 2 ^ 22)))"
proof -
  from coordinate_Finite[OF rep(1) r(1,2)] obtain a
    where a: "coordinate (Finite r1) = Finite a" "- 10 \<le> a" "a < 10" "a = 0 \<or> 1 / 2 ^ 50 \<le> \<bar>a\<bar>"
    by (elim exE conjE) (rule that)
  from coordinate_Finite[OF rep(2) r(3,4)] obtain b
    where b: "coordinate (Finite r2) = Finite b" "- 10 \<le> b" "b < 10" "b = 0 \<or> 1 / 2 ^ 50 \<le> \<bar>b\<bar>"
    by (elim exE conjE) (rule that)
  from coordinate_Finite[OF rep(3) r(5,6)] obtain c
    where c: "coordinate (Finite r3) = Finite c" "- 10 \<le> c" "c < 10" "c = 0 \<or> 1 / 2 ^ 50 \<le> \<bar>c\<bar>"
    by (elim exE conjE) (rule that)
  have abs10: "\<bar>a\<bar> \<le> 10" "\<bar>b\<bar> \<le> 10" "\<bar>c\<bar> \<le> 10"
    using a(2,3) b(2,3) c(2,3) by simp_all
  from distance_bounds[OF a(4) abs10(1) b(4) abs10(2) c(4) abs10(3)] obtain D
    where D: "distance_of (Finite a) (Finite b) (Finite c) = Finite D" "0 \<le> D"
      "(1 - 1 / 2 ^ 50) * (a\<^sup>2 + b\<^sup>2 + c\<^sup>2) \<le> D\<^sup>2"
      "D\<^sup>2 \<le> (1 + 1 / 2 ^ 50) * (a\<^sup>2 + b\<^sup>2 + c\<^sup>2)"
      "D = 0 \<or> 1 / 2 ^ 1022 \<le> D"
    by (elim exE conjE) (rule that)
  have stored: "\<exists>X Y Z. (case push_out (Finite a) (Finite b) (Finite c) of
                          (x, y, z) \<Rightarrow> fround x = Finite X \<and> fround y = Finite Y \<and> fround z = Finite Z) \<and>
                2 - 1 / 2 ^ 22 \<le> sqrt (X\<^sup>2 + Y\<^sup>2 + Z\<^sup>2) \<and>
                (D < 2 \<longrightarrow> sqrt (X\<^sup>2 + Y\<^sup>2 + Z\<^sup>2) \<le> 2 + 1 / 2 ^ 22)"
    if nz: "a \<noteq> 0 \<or> b \<noteq> 0 \<or> c \<noteq> 0"
  proof -
    from push_out_bounds[OF a(4) abs10(1) b(4) abs10(2) c(4) abs10(3) nz D] obtain x y z
      where p: "push_out (Finite a) (Finite b) (Finite c) = (Finite x, Finite y, Finite z)"
        and xyz: "\<bar>x\<bar> \<le> 10" "\<bar>y\<bar> \<le> 10" "\<bar>z\<bar> \<le> 10"
        and s_lo: "4 - 1 / 2 ^ 47 \<le> x\<^sup>2 + y\<^sup>2 + z\<^sup>2"
        and s_up: "D < 2 \<longrightarrow> x\<^sup>2 + y\<^sup>2 + z\<^sup>2 \<le> 4 + 1 / 2 ^ 47"
      by (elim exE conjE) (rule that)
    have f: "fround (Finite x) = Finite (f32_round x)" "fround (Finite y) = Finite (f32_round y)"
      "fround (Finite z) = Finite (f32_round z)"
      using xyz by (simp_all add: fround_small)
    have "2 - 1 / 2 ^ 22 \<le> sqrt ((f32_round x)\<^sup>2 + (f32_round y)\<^sup>2 + (f32_round z)\<^sup>2)"
      using s_lo xyz by (rule stored_distance_lower)
    moreover have "sqrt ((f32_round x)\<^sup>2 + (f32_round y)\<^sup>2 + (f32_round z)\<^sup>2) \<le> 2 + 1 / 2 ^ 22"
      if "D < 2"
    proof -
      from that s_up have "x\<^sup>2 + y\<^sup>2 + z\<^sup>2 \<le> 4 + 1 / 2 ^ 47" by simp
      then show ?thesis using xyz by (rule stored_distance_upper)
    qed
    ultimately show ?thesis unfolding p using f by simp
  qed
  show ?thesis
  proof (rule exI[of _ a], rule exI[of _ b], rule exI[of _ c], rule exI[of _ D], intro conjI)
    show "coordinate (Finite r1) = Finite a" by (rule a(1))
    show "coordinate (Finite r2) = Finite b" by (rule b(1))
    show "coordinate (Finite r3) = Finite c" by (rule c(1))
    show "- 10 \<le> a" "a < 10" "- 10 \<le> b" "b < 10" "- 10 \<le> c" "c < 10"
      by (rule a b c)+
    show "distance_of (Finite a) (Finite b) (Finite c) = Finite D" by (rule D(1))
    show "0 \<le> D" by (rule D(2))
    show "(1 - 1 / 2 ^ 50) * (a\<^sup>2 + b\<^sup>2 + c\<^sup>2) \<le> D\<^sup>2" by (rule D(3))
    show "D\<^sup>2 \<le> (1 + 1 / 2 ^ 50) * (a\<^sup>2 + b\<^sup>2 + c\<^sup>2)" by (rule D(4))
    show "a \<noteq> 0 \<or> b \<noteq> 0 \<or> c \<noteq> 0 \<longrightarrow> (\<exists>X Y Z. (case push_out (Finite a) (Finite b) (Finite c) of
                          (x, y, z) \<Rightarrow> fround x = Finite X \<and> fround y = Finite Y \<and> fround z = Finite Z) \<and>
                2 - 1 / 2 ^ 22 \<le> sqrt (X\<^sup>2 + Y\<^sup>2 + Z\<^sup>2) \<and>
                (D < 2 \<longrightarrow> sqrt (X\<^sup>2 + Y\<^sup>2 + Z\<^sup>2) \<le> 2 + 1 / 2 ^ 22))"
      by (rule impI) (rule stored)
  qed
qed

section \<open>Stored values\<close>

lemma f64_0 [simp]: "f64 0 = Finite 0"
  by (simp add: f64_finite)

lemma num_add_Finite:
  "\<bar>a + b\<bar> \<le> 2 ^ 1023 \<Longrightarrow> num_add (Finite a) (Finite b) = Finite (f64_round (a + b))"
  by (simp add: f64_finite)

lemma num_sub_Finite:
  "\<bar>a - b\<bar> \<le> 2 ^ 1023 \<Longrightarrow> num_sub (Finite a) (Finite b) = Finite (f64_round (a - b))"
  by (simp add: num_sub_def f64_finite)

lemma num_mul_Finite:
  "\<bar>a * b\<bar> \<le> 2 ^ 1023 \<Longrightarrow> num_mul (Finite a) (Finite b) = Finite (f64_round (a * b))"
  by (simp add: f64_finite)

lemma num_sqrt_Finite:
  assumes "0 \<le> a" "a \<le> 2 ^ 1023"
  shows "num_sqrt (Finite a) = Finite (f64_round (sqrt a))"
proof -
  have "sqrt a \<le> 2 ^ 1023"
    using assms by (intro real_le_lsqrt) simp_all
  then show ?thesis using assms(1) by (simp add: f64_finite)
qed

lemma f64_round_grazing_sum_fix: "f64_round (2251799902695389 / 562949953421312) = 2251799902695389 / 562949953421312"
  by (subst f64_round_eval[of "2"])
    (simp_all add: power_int_minus_divide round_half_even_def)

lemma push_out_cases:
  assumes "distance_of (Finite a) (Finite b) (Finite c) = Finite D"
  shows "D < 2 \<Longrightarrow> push_out (Finite a) (Finite b) (Finite c) =
            (num_mul (Finite a) (num_div minDistance (Finite D)),
             num_mul (Finite b) (num_div minDistance (Finite D)),
             num_mul (Finite c) (num_div minDistance (Finite D)))"
    and "2 \<le> D \<Longrightarrow> push_out (Finite a) (Finite b) (Finite c) = (Finite a, Finite b, Finite c)"
proof -
  have less: "num_less (Finite D) minDistance \<longleftrightarrow> D < 2" by (simp add: minDistance_def)
  show "D < 2 \<Longrightarrow> push_out (Finite a) (Finite b) (Finite c) =
            (num_mul (Finite a) (num_div minDistance (Finite D)),
             num_mul (Finite b) (num_div minDistance (Finite D)),
             num_mul (Finite c) (num_div minDistance (Finite D)))"
    by (simp only: push_out_def assms Let_def less if_True)
  show "2 \<le> D \<Longrightarrow> push_out (Finite a) (Finite b) (Finite c) = (Finite a, Finite b, Finite c)"
    by (simp only: push_out_def assms Let_def less) simp
qed

lemma drawn_grazing:
  "drawn grazing 0 = Finite (189812535 / 134217728)"
  "drawn grazing 1 = Finite (189812535 / 134217728)"
  "drawn grazing 2 = Finite 0"
proof -
  have sub: "num_sub (Finite (306397963 / 536870912)) (Finite (1 / 2)) = Finite (37962507 / 536870912)"
  proof -
    have "num_sub (Finite (306397963 / 536870912)) (Finite (1 / 2))
        = Finite (f64_round (306397963 / 536870912 - 1 / 2))"
      by (rule num_sub_Finite) simp
    then show ?thesis by (simp only: f64_round_grazing_centred)
  qed
  have mul: "num_mul (Finite (37962507 / 536870912)) (Finite 20) = Finite (189812535 / 134217728)"
  proof -
    have "num_mul (Finite (37962507 / 536870912)) (Finite 20)
        = Finite (f64_round (37962507 / 536870912 * 20))"
      by (rule num_mul_Finite) simp
    then show ?thesis by (simp only: f64_round_grazing_scaled)
  qed
  have g: "grazing 0 = 306397963 / 536870912" "grazing 1 = 306397963 / 536870912"
    by (simp_all add: grazing_def)
  show "drawn grazing 0 = Finite (189812535 / 134217728)"
    by (simp only: drawn_def coordinate_def g sub mul)
  show "drawn grazing 1 = Finite (189812535 / 134217728)"
    by (simp only: drawn_def coordinate_def g sub mul)
  show "drawn grazing 2 = Finite 0"
    by (simp add: drawn_def coordinate_def grazing_def num_sub_def)
qed

lemma distance_grazing:
  "\<exists>D. distance_of (Finite (189812535 / 134217728)) (Finite (189812535 / 134217728)) (Finite 0)
        = Finite D \<and> 2 \<le> D"
proof -
  have sq: "num_mul (Finite (189812535 / 134217728)) (Finite (189812535 / 134217728))
      = Finite (2251799902695389 / 1125899906842624)"
  proof -
    have "num_mul (Finite (189812535 / 134217728)) (Finite (189812535 / 134217728))
        = Finite (f64_round (189812535 / 134217728 * (189812535 / 134217728)))"
      by (rule num_mul_Finite) simp
    then show ?thesis by (simp only: f64_round_grazing_square)
  qed
  have zero: "num_mul (Finite 0) (Finite 0) = Finite 0" by simp
  have add1: "num_add (Finite (2251799902695389 / 1125899906842624))
        (Finite (2251799902695389 / 1125899906842624)) = Finite (2251799902695389 / 562949953421312)"
  proof -
    have "num_add (Finite (2251799902695389 / 1125899906842624))
        (Finite (2251799902695389 / 1125899906842624))
        = Finite (f64_round (2251799902695389 / 1125899906842624 + 2251799902695389 / 1125899906842624))"
      by (rule num_add_Finite) simp
    then show ?thesis by (simp only: f64_round_grazing_sum)
  qed
  have add2: "num_add (Finite (2251799902695389 / 562949953421312)) (Finite 0)
      = Finite (2251799902695389 / 562949953421312)"
  proof -
    have "num_add (Finite (2251799902695389 / 562949953421312)) (Finite 0)
        = Finite (f64_round (2251799902695389 / 562949953421312 + 0))"
      by (rule num_add_Finite) simp
    then show ?thesis by (simp only: add_0_right f64_round_grazing_sum_fix)
  qed
  have root: "num_sqrt (Finite (2251799902695389 / 562949953421312))
      = Finite (f64_round (sqrt (2251799902695389 / 562949953421312)))"
    by (rule num_sqrt_Finite) simp_all
  have "(2::real) \<le> sqrt (2251799902695389 / 562949953421312)"
    by (rule real_le_rsqrt) simp
  then have "f64_round 2 \<le> f64_round (sqrt (2251799902695389 / 562949953421312))"
    by (rule f64_round_mono)
  then have far: "2 \<le> f64_round (sqrt (2251799902695389 / 562949953421312))"
    by (simp only: f64_round_2)
  have "distance_of (Finite (189812535 / 134217728)) (Finite (189812535 / 134217728)) (Finite 0)
      = Finite (f64_round (sqrt (2251799902695389 / 562949953421312)))"
    by (simp only: distance_of_def sq zero add1 add2 root)
  with far show ?thesis by blast
qed

lemma inner_unit: "\<forall>k. 0 \<le> inner k \<and> inner k < 1 \<and> f64_round (inner k) = inner k"
  by (simp add: inner_def f64_round_inner_draw)

lemma drawn_inner: "drawn inner k = Finite (5 / 8)"
proof -
  have sub: "num_sub (Finite (17 / 32)) (Finite (1 / 2)) = Finite (1 / 32)"
  proof -
    have "num_sub (Finite (17 / 32)) (Finite (1 / 2)) = Finite (f64_round (17 / 32 - 1 / 2))"
      by (rule num_sub_Finite) simp
    then show ?thesis by (simp only: f64_round_inner_centred)
  qed
  have mul: "num_mul (Finite (1 / 32)) (Finite 20) = Finite (5 / 8)"
  proof -
    have "num_mul (Finite (1 / 32)) (Finite 20) = Finite (f64_round (1 / 32 * 20))"
      by (rule num_mul_Finite) simp
    then show ?thesis by (simp only: f64_round_inner_scaled)
  qed
  show ?thesis by (simp only: drawn_def coordinate_def inner_def sub mul)
qed

lemma f64_three_tenths: "f64 (3 / 10) = Finite (5404319552844595 / 18014398509481984)"
proof -
  have "f64 (3 / 10) = Finite (f64_round (3 / 10))" by (rule f64_finite) simp
  then show ?thesis by (simp only: f64_round_three_tenths)
qed

lemma f64_tenth: "f64 (1 / 10) = Finite (3602879701896397 / 36028797018963968)"
proof -
  have "f64 (1 / 10) = Finite (f64_round (1 / 10))" by (rule f64_finite) simp
  then show ?thesis by (simp only: f64_round_tenth)
qed

lemma star_size_Finite:
  assumes "0 \<le> r" "r < 1"
  shows "star_size (Finite r) =
    Finite (f64_round (f64_round (r * (5404319552844595 / 18014398509481984))
      + 3602879701896397 / 36028797018963968))"
    and "3602879701896397 / 36028797018963968
      \<le> f64_round (f64_round (r * (5404319552844595 / 18014398509481984))
          + 3602879701896397 / 36028797018963968)"
    and "f64_round (f64_round (r * (5404319552844595 / 18014398509481984))
          + 3602879701896397 / 36028797018963968) \<le> 3602879701896397 / 9007199254740992"
proof -
  define p where "p = f64_round (r * (5404319552844595 / 18014398509481984))"
  have "0 \<le> r * (5404319552844595 / 18014398509481984)" using assms(1) by simp
  then have p0: "0 \<le> p" unfolding p_def by (rule f64_round_nonneg)
  have "r * (5404319552844595 / 18014398509481984) \<le> 5404319552844595 / 18014398509481984"
    using assms(2) by simp
  then have "p \<le> f64_round (5404319552844595 / 18014398509481984)"
    unfolding p_def by (rule f64_round_mono)
  then have p1: "p \<le> 5404319552844595 / 18014398509481984"
    by (simp only: f64_round_three_tenths_fix)
  have "\<bar>r * (5404319552844595 / 18014398509481984)\<bar> \<le> 2 ^ 1023"
  proof -
    have "\<bar>r * (5404319552844595 / 18014398509481984)\<bar> \<le> 1" using assms by simp
    also have "\<dots> \<le> (2::real) ^ 1023" by simp
    finally show ?thesis .
  qed
  then have mul: "num_mul (Finite r) (Finite (5404319552844595 / 18014398509481984)) = Finite p"
    unfolding p_def by (rule num_mul_Finite)
  have "\<bar>p + 3602879701896397 / 36028797018963968\<bar> \<le> 2 ^ 1023"
  proof -
    have "\<bar>p + 3602879701896397 / 36028797018963968\<bar> \<le> 1" using p0 p1 by simp
    also have "\<dots> \<le> (2::real) ^ 1023" by simp
    finally show ?thesis .
  qed
  then have add: "num_add (Finite p) (Finite (3602879701896397 / 36028797018963968))
      = Finite (f64_round (p + 3602879701896397 / 36028797018963968))"
    by (rule num_add_Finite)
  show "star_size (Finite r) =
    Finite (f64_round (f64_round (r * (5404319552844595 / 18014398509481984))
      + 3602879701896397 / 36028797018963968))"
    by (simp only: star_size_def f64_three_tenths f64_tenth mul add) (simp only: p_def)
  have "3602879701896397 / 36028797018963968 \<le> p + 3602879701896397 / 36028797018963968"
    using p0 by simp
  then have "f64_round (3602879701896397 / 36028797018963968)
      \<le> f64_round (p + 3602879701896397 / 36028797018963968)"
    by (rule f64_round_mono)
  then show "3602879701896397 / 36028797018963968
      \<le> f64_round (f64_round (r * (5404319552844595 / 18014398509481984))
          + 3602879701896397 / 36028797018963968)"
    by (simp only: f64_round_tenth_fix p_def)
  have "p + 3602879701896397 / 36028797018963968
      \<le> 5404319552844595 / 18014398509481984 + 3602879701896397 / 36028797018963968"
    using p1 by simp
  then have "f64_round (p + 3602879701896397 / 36028797018963968)
      \<le> f64_round (5404319552844595 / 18014398509481984 + 3602879701896397 / 36028797018963968)"
    by (rule f64_round_mono)
  then show "f64_round (f64_round (r * (5404319552844595 / 18014398509481984))
          + 3602879701896397 / 36028797018963968) \<le> 3602879701896397 / 9007199254740992"
    by (simp only: f64_round_size_top p_def)
qed

lemma stored_color_range:
  assumes "0 \<le> r" "r < 1"
  shows "fround (Finite r) = Finite (f32_round r) \<and> 0 \<le> f32_round r \<and> f32_round r \<le> 1"
proof -
  have "fround (Finite r) = Finite (f32_round r)"
    using assms by (intro fround_small) simp
  moreover have "0 \<le> f32_round r" using assms by (simp add: f32_round_nonneg)
  moreover have "f32_round r \<le> f32_round 1"
    using assms by (intro f32_round_mono) simp
  ultimately show ?thesis by simp
qed

lemma stored_size_range:
  assumes "0 \<le> r" "r < 1"
  shows "\<exists>v. star_size (Finite r) = Finite v \<and>
           v = f64_round (f64_round (r * (5404319552844595 / 18014398509481984))
                 + 3602879701896397 / 36028797018963968) \<and>
           fround (Finite v) = Finite (f32_round v) \<and>
           1 / 10 \<le> f32_round v \<and> f32_round v \<le> 13421773 / 2 ^ 25"
proof -
  define v where "v = f64_round (f64_round (r * (5404319552844595 / 18014398509481984))
                 + 3602879701896397 / 36028797018963968)"
  note s = star_size_Finite[OF assms, folded v_def]
  have "\<bar>v\<bar> \<le> 16" using s(2,3) by simp
  then have f: "fround (Finite v) = Finite (f32_round v)" by (rule fround_small)
  have "f32_round (3602879701896397 / 36028797018963968) \<le> f32_round v"
    using s(2) by (rule f32_round_mono)
  then have "13421773 / 134217728 \<le> f32_round v" by (simp only: f32_round_size_bottom)
  then have lo: "1 / 10 \<le> f32_round v" by simp
  have "f32_round v \<le> f32_round (3602879701896397 / 9007199254740992)"
    using s(3) by (rule f32_round_mono)
  then have "f32_round v \<le> 13421773 / 33554432" by (simp only: f32_round_size_top)
  then have hi: "f32_round v \<le> 13421773 / 2 ^ 25" by simp
  from s(1) v_def f lo hi show ?thesis by blast
qed

lemma generate_stars_contents:
  "map (\<lambda>i. (positions (generate_stars rand n) ! (i * 3),
              positions (generate_stars rand n) ! (i * 3 + 1),
              positions (generate_stars rand n) ! (i * 3 + 2))) [0..<starCount]
     = map (\<lambda>i. case star_position rand (n + 7 * i) of
                  (x, y, z) \<Rightarrow> (fround x, fround y, fround z)) [0..<starCount]"
  "map (\<lambda>i. (colors (generate_stars rand n) ! (i * 3),
              colors (generate_stars rand n) ! (i * 3 + 1),
              colors (generate_stars rand n) ! (i * 3 + 2))) [0..<starCount]
     = map (\<lambda>i. (fround (Finite (rand (n + 7 * i + 3))),
                 fround (Finite (rand (n + 7 * i + 4))),
                 fround (Finite (rand (n + 7 * i + 5))))) [0..<starCount]"
  "sizes (generate_stars rand n)
     = map (\<lambda>i. fround (star_size (Finite (rand (n + 7 * i + 6))))) [0..<starCount]"
proof -
  let ?g = "generate_stars rand n"
  show "map (\<lambda>i. (positions ?g ! (i * 3), positions ?g ! (i * 3 + 1),
              positions ?g ! (i * 3 + 2))) [0..<starCount]
     = map (\<lambda>i. case star_position rand (n + 7 * i) of
                  (x, y, z) \<Rightarrow> (fround x, fround y, fround z)) [0..<starCount]"
  proof (rule map_cong[OF refl])
    fix i assume "i \<in> set [0..<starCount]"
    then have "i < starCount" by simp
    from generate_stars_slots[OF this, of rand n]
    show "(positions ?g ! (i * 3), positions ?g ! (i * 3 + 1), positions ?g ! (i * 3 + 2))
        = (case star_position rand (n + 7 * i) of (x, y, z) \<Rightarrow> (fround x, fround y, fround z))"
      by (cases "star_position rand (n + 7 * i)") simp
  qed
  show "map (\<lambda>i. (colors ?g ! (i * 3), colors ?g ! (i * 3 + 1),
              colors ?g ! (i * 3 + 2))) [0..<starCount]
     = map (\<lambda>i. (fround (Finite (rand (n + 7 * i + 3))),
                 fround (Finite (rand (n + 7 * i + 4))),
                 fround (Finite (rand (n + 7 * i + 5))))) [0..<starCount]"
  proof (rule map_cong[OF refl])
    fix i assume "i \<in> set [0..<starCount]"
    then have "i < starCount" by simp
    from generate_stars_slots[OF this, of rand n]
    show "(colors ?g ! (i * 3), colors ?g ! (i * 3 + 1), colors ?g ! (i * 3 + 2))
        = (fround (Finite (rand (n + 7 * i + 3))), fround (Finite (rand (n + 7 * i + 4))),
           fround (Finite (rand (n + 7 * i + 5))))"
      by simp
  qed
  have len: "length (sizes ?g) = starCount" by (simp add: length_generate_stars)
  have "map (\<lambda>i. sizes ?g ! i) [0..<starCount]
      = map (\<lambda>i. fround (star_size (Finite (rand (n + 7 * i + 6))))) [0..<starCount]"
  proof (rule map_cong[OF refl])
    fix i assume "i \<in> set [0..<starCount]"
    then have "i < starCount" by simp
    from generate_stars_slots[OF this, of rand n]
    show "sizes ?g ! i = fround (star_size (Finite (rand (n + 7 * i + 6))))" by simp
  qed
  moreover have "map (\<lambda>i. sizes ?g ! i) [0..<starCount] = sizes ?g"
    using map_nth[of "sizes ?g"] by (simp only: len)
  ultimately show "sizes ?g
     = map (\<lambda>i. fround (star_size (Finite (rand (n + 7 * i + 6))))) [0..<starCount]"
    by simp
qed

lemma f64_hundredth: "f64 (1 / 100) = Finite (5764607523034235 / 576460752303423488)"
proof -
  have "f64 (1 / 100) = Finite (f64_round (1 / 100))" by (rule f64_finite) simp
  then show ?thesis by (simp only: f64_round_hundredth)
qed

lemma f64_rotation_step: "f64 (2 / 10000) = Finite (7378697629483821 / 36893488147419103232)"
proof -
  have "f64 (2 / 10000) = Finite (f64_round (2 / 10000))" by (rule f64_finite) simp
  then show ?thesis by (simp only: f64_round_rotation_step)
qed

lemma ten_time: "repeated_add 10 (f64 (1 / 100)) (Finite 0) = Finite (7205759403792793 / 72057594037927936)"
proof -
  have s1: "num_add (Finite (0)) (Finite (5764607523034235 / 576460752303423488)) = Finite (5764607523034235 / 576460752303423488)"
  proof -
    have "num_add (Finite (0)) (Finite (5764607523034235 / 576460752303423488)) = Finite (f64_round (0 + 5764607523034235 / 576460752303423488))"
      by (rule num_add_Finite) simp
    then show ?thesis by (simp only: f64_round_time_1)
  qed
  have s2: "num_add (Finite (5764607523034235 / 576460752303423488)) (Finite (5764607523034235 / 576460752303423488)) = Finite (5764607523034235 / 288230376151711744)"
  proof -
    have "num_add (Finite (5764607523034235 / 576460752303423488)) (Finite (5764607523034235 / 576460752303423488)) = Finite (f64_round (5764607523034235 / 576460752303423488 + 5764607523034235 / 576460752303423488))"
      by (rule num_add_Finite) simp
    then show ?thesis by (simp only: f64_round_time_2)
  qed
  have s3: "num_add (Finite (5764607523034235 / 288230376151711744)) (Finite (5764607523034235 / 576460752303423488)) = Finite (1080863910568919 / 36028797018963968)"
  proof -
    have "num_add (Finite (5764607523034235 / 288230376151711744)) (Finite (5764607523034235 / 576460752303423488)) = Finite (f64_round (5764607523034235 / 288230376151711744 + 5764607523034235 / 576460752303423488))"
      by (rule num_add_Finite) simp
    then show ?thesis by (simp only: f64_round_time_3)
  qed
  have s4: "num_add (Finite (1080863910568919 / 36028797018963968)) (Finite (5764607523034235 / 576460752303423488)) = Finite (5764607523034235 / 144115188075855872)"
  proof -
    have "num_add (Finite (1080863910568919 / 36028797018963968)) (Finite (5764607523034235 / 576460752303423488)) = Finite (f64_round (1080863910568919 / 36028797018963968 + 5764607523034235 / 576460752303423488))"
      by (rule num_add_Finite) simp
    then show ?thesis by (simp only: f64_round_time_4)
  qed
  have s5: "num_add (Finite (5764607523034235 / 144115188075855872)) (Finite (5764607523034235 / 576460752303423488)) = Finite (3602879701896397 / 72057594037927936)"
  proof -
    have "num_add (Finite (5764607523034235 / 144115188075855872)) (Finite (5764607523034235 / 576460752303423488)) = Finite (f64_round (5764607523034235 / 144115188075855872 + 5764607523034235 / 576460752303423488))"
      by (rule num_add_Finite) simp
    then show ?thesis by (simp only: f64_round_time_5)
  qed
  have s6: "num_add (Finite (3602879701896397 / 72057594037927936)) (Finite (5764607523034235 / 576460752303423488)) = Finite (8646911284551353 / 144115188075855872)"
  proof -
    have "num_add (Finite (3602879701896397 / 72057594037927936)) (Finite (5764607523034235 / 576460752303423488)) = Finite (f64_round (3602879701896397 / 72057594037927936 + 5764607523034235 / 576460752303423488))"
      by (rule num_add_Finite) simp
    then show ?thesis by (simp only: f64_round_time_6)
  qed
  have s7: "num_add (Finite (8646911284551353 / 144115188075855872)) (Finite (5764607523034235 / 576460752303423488)) = Finite (1261007895663739 / 18014398509481984)"
  proof -
    have "num_add (Finite (8646911284551353 / 144115188075855872)) (Finite (5764607523034235 / 576460752303423488)) = Finite (f64_round (8646911284551353 / 144115188075855872 + 5764607523034235 / 576460752303423488))"
      by (rule num_add_Finite) simp
    then show ?thesis by (simp only: f64_round_time_7)
  qed
  have s8: "num_add (Finite (1261007895663739 / 18014398509481984)) (Finite (5764607523034235 / 576460752303423488)) = Finite (5764607523034235 / 72057594037927936)"
  proof -
    have "num_add (Finite (1261007895663739 / 18014398509481984)) (Finite (5764607523034235 / 576460752303423488)) = Finite (f64_round (1261007895663739 / 18014398509481984 + 5764607523034235 / 576460752303423488))"
      by (rule num_add_Finite) simp
    then show ?thesis by (simp only: f64_round_time_8)
  qed
  have s9: "num_add (Finite (5764607523034235 / 72057594037927936)) (Finite (5764607523034235 / 576460752303423488)) = Finite (3242591731706757 / 36028797018963968)"
  proof -
    have "num_add (Finite (5764607523034235 / 72057594037927936)) (Finite (5764607523034235 / 576460752303423488)) = Finite (f64_round (5764607523034235 / 72057594037927936 + 5764607523034235 / 576460752303423488))"
      by (rule num_add_Finite) simp
    then show ?thesis by (simp only: f64_round_time_9)
  qed
  have s10: "num_add (Finite (3242591731706757 / 36028797018963968)) (Finite (5764607523034235 / 576460752303423488)) = Finite (7205759403792793 / 72057594037927936)"
  proof -
    have "num_add (Finite (3242591731706757 / 36028797018963968)) (Finite (5764607523034235 / 576460752303423488)) = Finite (f64_round (3242591731706757 / 36028797018963968 + 5764607523034235 / 576460752303423488))"
      by (rule num_add_Finite) simp
    then show ?thesis by (simp only: f64_round_time_10)
  qed
  have ten: "(10::nat) = Suc (Suc (Suc (Suc (Suc (Suc (Suc (Suc (Suc (Suc (0))))))))))" by simp
  show ?thesis
    by (simp only: ten repeated_add.simps f64_hundredth s1 s2 s3 s4 s5 s6 s7 s8 s9 s10)
qed

lemma ten_turn: "repeated_add 10 (f64 (2 / 10000)) (Finite 0) = Finite (4611686018427389 / 2305843009213693952)"
proof -
  have s1: "num_add (Finite (0)) (Finite (7378697629483821 / 36893488147419103232)) = Finite (7378697629483821 / 36893488147419103232)"
  proof -
    have "num_add (Finite (0)) (Finite (7378697629483821 / 36893488147419103232)) = Finite (f64_round (0 + 7378697629483821 / 36893488147419103232))"
      by (rule num_add_Finite) simp
    then show ?thesis by (simp only: f64_round_turn_1)
  qed
  have s2: "num_add (Finite (7378697629483821 / 36893488147419103232)) (Finite (7378697629483821 / 36893488147419103232)) = Finite (7378697629483821 / 18446744073709551616)"
  proof -
    have "num_add (Finite (7378697629483821 / 36893488147419103232)) (Finite (7378697629483821 / 36893488147419103232)) = Finite (f64_round (7378697629483821 / 36893488147419103232 + 7378697629483821 / 36893488147419103232))"
      by (rule num_add_Finite) simp
    then show ?thesis by (simp only: f64_round_turn_2)
  qed
  have s3: "num_add (Finite (7378697629483821 / 18446744073709551616)) (Finite (7378697629483821 / 36893488147419103232)) = Finite (2767011611056433 / 4611686018427387904)"
  proof -
    have "num_add (Finite (7378697629483821 / 18446744073709551616)) (Finite (7378697629483821 / 36893488147419103232)) = Finite (f64_round (7378697629483821 / 18446744073709551616 + 7378697629483821 / 36893488147419103232))"
      by (rule num_add_Finite) simp
    then show ?thesis by (simp only: f64_round_turn_3)
  qed
  have s4: "num_add (Finite (2767011611056433 / 4611686018427387904)) (Finite (7378697629483821 / 36893488147419103232)) = Finite (7378697629483821 / 9223372036854775808)"
  proof -
    have "num_add (Finite (2767011611056433 / 4611686018427387904)) (Finite (7378697629483821 / 36893488147419103232)) = Finite (f64_round (2767011611056433 / 4611686018427387904 + 7378697629483821 / 36893488147419103232))"
      by (rule num_add_Finite) simp
    then show ?thesis by (simp only: f64_round_turn_4)
  qed
  have s5: "num_add (Finite (7378697629483821 / 9223372036854775808)) (Finite (7378697629483821 / 36893488147419103232)) = Finite (1152921504606847 / 1152921504606846976)"
  proof -
    have "num_add (Finite (7378697629483821 / 9223372036854775808)) (Finite (7378697629483821 / 36893488147419103232)) = Finite (f64_round (7378697629483821 / 9223372036854775808 + 7378697629483821 / 36893488147419103232))"
      by (rule num_add_Finite) simp
    then show ?thesis by (simp only: f64_round_turn_5)
  qed
  have s6: "num_add (Finite (1152921504606847 / 1152921504606846976)) (Finite (7378697629483821 / 36893488147419103232)) = Finite (2767011611056433 / 2305843009213693952)"
  proof -
    have "num_add (Finite (1152921504606847 / 1152921504606846976)) (Finite (7378697629483821 / 36893488147419103232)) = Finite (f64_round (1152921504606847 / 1152921504606846976 + 7378697629483821 / 36893488147419103232))"
      by (rule num_add_Finite) simp
    then show ?thesis by (simp only: f64_round_turn_6)
  qed
  have s7: "num_add (Finite (2767011611056433 / 2305843009213693952)) (Finite (7378697629483821 / 36893488147419103232)) = Finite (807045053224793 / 576460752303423488)"
  proof -
    have "num_add (Finite (2767011611056433 / 2305843009213693952)) (Finite (7378697629483821 / 36893488147419103232)) = Finite (f64_round (2767011611056433 / 2305843009213693952 + 7378697629483821 / 36893488147419103232))"
      by (rule num_add_Finite) simp
    then show ?thesis by (simp only: f64_round_turn_7)
  qed
  have s8: "num_add (Finite (807045053224793 / 576460752303423488)) (Finite (7378697629483821 / 36893488147419103232)) = Finite (3689348814741911 / 2305843009213693952)"
  proof -
    have "num_add (Finite (807045053224793 / 576460752303423488)) (Finite (7378697629483821 / 36893488147419103232)) = Finite (f64_round (807045053224793 / 576460752303423488 + 7378697629483821 / 36893488147419103232))"
      by (rule num_add_Finite) simp
    then show ?thesis by (simp only: f64_round_turn_8)
  qed
  have s9: "num_add (Finite (3689348814741911 / 2305843009213693952)) (Finite (7378697629483821 / 36893488147419103232)) = Finite (2075258708292325 / 1152921504606846976)"
  proof -
    have "num_add (Finite (3689348814741911 / 2305843009213693952)) (Finite (7378697629483821 / 36893488147419103232)) = Finite (f64_round (3689348814741911 / 2305843009213693952 + 7378697629483821 / 36893488147419103232))"
      by (rule num_add_Finite) simp
    then show ?thesis by (simp only: f64_round_turn_9)
  qed
  have s10: "num_add (Finite (2075258708292325 / 1152921504606846976)) (Finite (7378697629483821 / 36893488147419103232)) = Finite (4611686018427389 / 2305843009213693952)"
  proof -
    have "num_add (Finite (2075258708292325 / 1152921504606846976)) (Finite (7378697629483821 / 36893488147419103232)) = Finite (f64_round (2075258708292325 / 1152921504606846976 + 7378697629483821 / 36893488147419103232))"
      by (rule num_add_Finite) simp
    then show ?thesis by (simp only: f64_round_turn_10)
  qed
  have ten: "(10::nat) = Suc (Suc (Suc (Suc (Suc (Suc (Suc (Suc (Suc (Suc (0))))))))))" by simp
  show ?thesis
    by (simp only: ten repeated_add.simps f64_rotation_step s1 s2 s3 s4 s5 s6 s7 s8 s9 s10)
qed

lemma built_scene:
  "\<exists>s r u. stars (build_scene rand cv w) = Some s \<and> renderer (build_scene rand cv w) = Some r \<and>
     rotation_y s = Finite 0 \<and> material_uniforms s = Some u \<and> uTime u = Finite 0"
  by (simp add: build_scene_def Let_def)

lemma coordinate_half: "coordinate (Finite (1 / 2)) = Finite 0"
  by (simp add: coordinate_def num_sub_def)

lemma drawn_origin: "rand k = 1 / 2 \<Longrightarrow> drawn rand k = Finite 0"
  by (simp only: drawn_def coordinate_half)

lemma distance_origin: "distance_of (Finite 0) (Finite 0) (Finite 0) = Finite 0"
  by (simp add: distance_of_def)

lemma push_out_origin:
  "push_out (Finite 0) (Finite 0) (Finite 0) = (NaN, NaN, NaN)"
  by (simp add: push_out_def distance_origin minDistance_def Let_def inf_of_def)

section \<open>The claims\<close>

text \<open>
  Claim C1, as stated, fails. With the first two draws \<open>306397963 / 2\<^sup>2\<^sup>9\<close> and the third
  \<open>1/2\<close>, the first star is drawn at \<open>x = y = 189812535 / 2\<^sup>2\<^sup>7\<close>, \<open>z = 0\<close>; the distance
  the code computes in binary64 is not below 2, so the star is not rescaled. The store
  into the position buffer rounds both coordinates down to the binary32 value
  \<open>11863283 / 2\<^sup>2\<^sup>3\<close>: the stored coordinates are not the drawn ones, and the stored
  position is at distance less than 2 from the origin.
\<close>

theorem stored_distance_below_two:
  "grazing 0 = 306397963 / 536870912 \<and> grazing 1 = 306397963 / 536870912 \<and> grazing 2 = 1 / 2 \<and>
   drawn grazing 0 = Finite (189812535 / 134217728) \<and>
   drawn grazing 1 = Finite (189812535 / 134217728) \<and>
   drawn grazing 2 = Finite 0 \<and>
   \<not> num_less (distance_of (drawn grazing 0) (drawn grazing 1) (drawn grazing 2)) minDistance \<and>
   positions (generate_stars grazing 0) ! 0 = Finite (11863283 / 8388608) \<and>
   positions (generate_stars grazing 0) ! 1 = Finite (11863283 / 8388608) \<and>
   positions (generate_stars grazing 0) ! 2 = Finite 0 \<and>
   positions (generate_stars grazing 0) ! 0 \<noteq> drawn grazing 0 \<and>
   sqrt ((11863283 / 8388608)\<^sup>2 + (11863283 / 8388608)\<^sup>2 + 0\<^sup>2) < (2::real)"
proof -
  have draws: "grazing 0 = 306397963 / 536870912" "grazing 1 = 306397963 / 536870912"
    "grazing 2 = 1 / 2"
    by (simp_all add: grazing_def)
  note coords = drawn_grazing
  from distance_grazing obtain D
    where D: "distance_of (Finite (189812535 / 134217728)) (Finite (189812535 / 134217728))
        (Finite 0) = Finite D" and far: "2 \<le> D"
    by (elim exE conjE) (rule that)
  have outside:
    "\<not> num_less (distance_of (drawn grazing 0) (drawn grazing 1) (drawn grazing 2)) minDistance"
    unfolding coords D minDistance_def using far by simp
  have pos: "star_position grazing 0
      = (Finite (189812535 / 134217728), Finite (189812535 / 134217728), Finite 0)"
  proof -
    have "star_position grazing 0 = push_out (drawn grazing 0) (drawn grazing 1) (drawn grazing 2)"
      by (simp add: star_position_def numeral_2_eq_2)
    then show ?thesis by (simp only: coords push_out_cases(2)[OF D far])
  qed
  have "(0::nat) < starCount" by (simp add: starCount_def)
  from generate_stars_slots[OF this, of grazing 0]
  have "positions (generate_stars grazing 0) ! 0 = fround (Finite (189812535 / 134217728))"
    "positions (generate_stars grazing 0) ! 1 = fround (Finite (189812535 / 134217728))"
    "positions (generate_stars grazing 0) ! 2 = fround (Finite 0)"
    by (simp_all add: pos numeral_2_eq_2)
  moreover have "fround (Finite (189812535 / 134217728)) = Finite (f32_round (189812535 / 134217728))"
    by (rule fround_small) simp
  moreover have "fround (Finite 0) = Finite 0"
    by (simp add: fround_small)
  ultimately have stored: "positions (generate_stars grazing 0) ! 0 = Finite (11863283 / 8388608)"
    "positions (generate_stars grazing 0) ! 1 = Finite (11863283 / 8388608)"
    "positions (generate_stars grazing 0) ! 2 = Finite 0"
    by (simp_all only: f32_round_grazing)
  have near: "sqrt ((11863283 / 8388608)\<^sup>2 + (11863283 / 8388608)\<^sup>2 + 0\<^sup>2) < (2::real)"
    by (rule real_less_lsqrt) (simp_all add: power2_eq_square)
  have changed: "positions (generate_stars grazing 0) ! 0 \<noteq> drawn grazing 0"
    unfolding stored coords by simp
  from draws coords outside stored changed near show ?thesis by blast
qed

text \<open>
  Claim C1, amended. Let every draw be a binary64 value of \<open>[0, 1)\<close>, as the values of
  \<^verbatim>\<open>Math.random()\<close> are. For every star \<open>i\<close> of the 2000 the drawn coordinates \<open>x\<close>, \<open>y\<close>, \<open>z\<close>
  are finite and lie in \<open>[-10, 10)\<close>, and the distance \<open>d\<close> that the code computes for them
  in binary64 is finite, with \<open>d\<^sup>2\<close> within the relative distance \<open>2\<^sup>-\<^sup>5\<^sup>0\<close> of
  \<open>x\<^sup>2 + y\<^sup>2 + z\<^sup>2\<close>. If \<open>d < 2\<close>, what is stored is each coordinate multiplied in
  binary64 by the binary64 quotient \<open>2 / d\<close>, rounded to binary32; if \<open>d \<ge> 2\<close>, each
  coordinate rounded to binary32, not rescaled. Hence, unless the star is drawn exactly
  at the origin, the stored position is finite and at distance at least \<open>2 - 2\<^sup>-\<^sup>2\<^sup>2\<close>
  from the origin, and a rescaled star is stored at distance at most \<open>2 + 2\<^sup>-\<^sup>2\<^sup>2\<close>.
\<close>

theorem stored_distance_tolerance:
  fixes rand :: "nat \<Rightarrow> real"
  assumes draws: "\<forall>k. 0 \<le> rand k \<and> rand k < 1 \<and> f64_round (rand k) = rand k"
    and star: "i < starCount"
  shows "\<exists>x y z d.
     drawn rand (n + 7 * i) = Finite x \<and> drawn rand (n + 7 * i + 1) = Finite y \<and>
     drawn rand (n + 7 * i + 2) = Finite z \<and>
     - 10 \<le> x \<and> x < 10 \<and> - 10 \<le> y \<and> y < 10 \<and> - 10 \<le> z \<and> z < 10 \<and>
     distance_of (Finite x) (Finite y) (Finite z) = Finite d \<and> 0 \<le> d \<and>
     (1 - 1 / 2 ^ 50) * (x\<^sup>2 + y\<^sup>2 + z\<^sup>2) \<le> d\<^sup>2 \<and>
     d\<^sup>2 \<le> (1 + 1 / 2 ^ 50) * (x\<^sup>2 + y\<^sup>2 + z\<^sup>2) \<and>
     (d < 2 \<longrightarrow>
        positions (generate_stars rand n) ! (i * 3)
          = fround (num_mul (Finite x) (num_div minDistance (Finite d))) \<and>
        positions (generate_stars rand n) ! (i * 3 + 1)
          = fround (num_mul (Finite y) (num_div minDistance (Finite d))) \<and>
        positions (generate_stars rand n) ! (i * 3 + 2)
          = fround (num_mul (Finite z) (num_div minDistance (Finite d)))) \<and>
     (2 \<le> d \<longrightarrow>
        positions (generate_stars rand n) ! (i * 3) = fround (Finite x) \<and>
        positions (generate_stars rand n) ! (i * 3 + 1) = fround (Finite y) \<and>
        positions (generate_stars rand n) ! (i * 3 + 2) = fround (Finite z)) \<and>
     (x \<noteq> 0 \<or> y \<noteq> 0 \<or> z \<noteq> 0 \<longrightarrow>
        (\<exists>X Y Z. positions (generate_stars rand n) ! (i * 3) = Finite X \<and>
                 positions (generate_stars rand n) ! (i * 3 + 1) = Finite Y \<and>
                 positions (generate_stars rand n) ! (i * 3 + 2) = Finite Z \<and>
                 2 - 1 / 2 ^ 22 \<le> sqrt (X\<^sup>2 + Y\<^sup>2 + Z\<^sup>2) \<and>
                 (d < 2 \<longrightarrow> sqrt (X\<^sup>2 + Y\<^sup>2 + Z\<^sup>2) \<le> 2 + 1 / 2 ^ 22)))"
proof -
  let ?g = "generate_stars rand n"
  have r: "\<And>k. 0 \<le> rand k" "\<And>k. rand k < 1" "\<And>k. f64_round (rand k) = rand k"
    using draws by simp_all
  from stored_position[OF r(3) r(3) r(3) r(1,2) r(1,2) r(1,2),
      of "n + 7 * i" "n + 7 * i + 1" "n + 7 * i + 2"]
  obtain x y z d where
    c: "coordinate (Finite (rand (n + 7 * i))) = Finite x"
      "coordinate (Finite (rand (n + 7 * i + 1))) = Finite y"
      "coordinate (Finite (rand (n + 7 * i + 2))) = Finite z"
    and range: "- 10 \<le> x" "x < 10" "- 10 \<le> y" "y < 10" "- 10 \<le> z" "z < 10"
    and d: "distance_of (Finite x) (Finite y) (Finite z) = Finite d" "0 \<le> d"
      "(1 - 1 / 2 ^ 50) * (x\<^sup>2 + y\<^sup>2 + z\<^sup>2) \<le> d\<^sup>2"
      "d\<^sup>2 \<le> (1 + 1 / 2 ^ 50) * (x\<^sup>2 + y\<^sup>2 + z\<^sup>2)"
    and stored: "x \<noteq> 0 \<or> y \<noteq> 0 \<or> z \<noteq> 0 \<longrightarrow>
             (\<exists>X Y Z. (case push_out (Finite x) (Finite y) (Finite z) of
                          (x, y, z) \<Rightarrow> fround x = Finite X \<and> fround y = Finite Y \<and> fround z = Finite Z) \<and>
                2 - 1 / 2 ^ 22 \<le> sqrt (X\<^sup>2 + Y\<^sup>2 + Z\<^sup>2) \<and>
                (d < 2 \<longrightarrow> sqrt (X\<^sup>2 + Y\<^sup>2 + Z\<^sup>2) \<le> 2 + 1 / 2 ^ 22))"
    by (elim exE conjE) (rule that)
  have dr: "drawn rand (n + 7 * i) = Finite x" "drawn rand (n + 7 * i + 1) = Finite y"
    "drawn rand (n + 7 * i + 2) = Finite z"
    using c by (simp_all only: drawn_def)
  have pos: "star_position rand (n + 7 * i) = push_out (Finite x) (Finite y) (Finite z)"
    by (simp only: star_position_def dr)
  from generate_stars_slots[OF star, of rand n]
  have slots: "case push_out (Finite x) (Finite y) (Finite z) of (x, y, z) \<Rightarrow>
           positions ?g ! (i * 3) = fround x \<and>
           positions ?g ! (i * 3 + 1) = fround y \<and>
           positions ?g ! (i * 3 + 2) = fround z"
    unfolding pos by (rule conjunct1)
  have inside: "d < 2 \<longrightarrow>
        positions ?g ! (i * 3) = fround (num_mul (Finite x) (num_div minDistance (Finite d))) \<and>
        positions ?g ! (i * 3 + 1) = fround (num_mul (Finite y) (num_div minDistance (Finite d))) \<and>
        positions ?g ! (i * 3 + 2) = fround (num_mul (Finite z) (num_div minDistance (Finite d)))"
  proof
    assume "d < 2"
    from slots[unfolded push_out_cases(1)[OF d(1) this]]
    show "positions ?g ! (i * 3) = fround (num_mul (Finite x) (num_div minDistance (Finite d))) \<and>
        positions ?g ! (i * 3 + 1) = fround (num_mul (Finite y) (num_div minDistance (Finite d))) \<and>
        positions ?g ! (i * 3 + 2) = fround (num_mul (Finite z) (num_div minDistance (Finite d)))"
      by (simp only: prod.case)
  qed
  have outside: "2 \<le> d \<longrightarrow>
        positions ?g ! (i * 3) = fround (Finite x) \<and>
        positions ?g ! (i * 3 + 1) = fround (Finite y) \<and>
        positions ?g ! (i * 3 + 2) = fround (Finite z)"
  proof
    assume "2 \<le> d"
    from slots[unfolded push_out_cases(2)[OF d(1) this]]
    show "positions ?g ! (i * 3) = fround (Finite x) \<and>
        positions ?g ! (i * 3 + 1) = fround (Finite y) \<and>
        positions ?g ! (i * 3 + 2) = fround (Finite z)"
      by (simp only: prod.case)
  qed
  have kept: "x \<noteq> 0 \<or> y \<noteq> 0 \<or> z \<noteq> 0 \<longrightarrow>
        (\<exists>X Y Z. positions ?g ! (i * 3) = Finite X \<and>
                 positions ?g ! (i * 3 + 1) = Finite Y \<and>
                 positions ?g ! (i * 3 + 2) = Finite Z \<and>
                 2 - 1 / 2 ^ 22 \<le> sqrt (X\<^sup>2 + Y\<^sup>2 + Z\<^sup>2) \<and>
                 (d < 2 \<longrightarrow> sqrt (X\<^sup>2 + Y\<^sup>2 + Z\<^sup>2) \<le> 2 + 1 / 2 ^ 22))"
  proof
    assume "x \<noteq> 0 \<or> y \<noteq> 0 \<or> z \<noteq> 0"
    from stored[THEN mp, OF this] obtain X Y Z where
      f: "case push_out (Finite x) (Finite y) (Finite z) of
            (x, y, z) \<Rightarrow> fround x = Finite X \<and> fround y = Finite Y \<and> fround z = Finite Z"
      and n: "2 - 1 / 2 ^ 22 \<le> sqrt (X\<^sup>2 + Y\<^sup>2 + Z\<^sup>2)"
        "d < 2 \<longrightarrow> sqrt (X\<^sup>2 + Y\<^sup>2 + Z\<^sup>2) \<le> 2 + 1 / 2 ^ 22"
      by (elim exE conjE) (rule that)
    obtain p q s where pqs: "push_out (Finite x) (Finite y) (Finite z) = (p, q, s)"
      by (cases "push_out (Finite x) (Finite y) (Finite z)") auto
    have "positions ?g ! (i * 3) = Finite X \<and> positions ?g ! (i * 3 + 1) = Finite Y \<and>
        positions ?g ! (i * 3 + 2) = Finite Z"
      using slots f unfolding pqs by simp
    with n show "\<exists>X Y Z. positions ?g ! (i * 3) = Finite X \<and>
                 positions ?g ! (i * 3 + 1) = Finite Y \<and>
                 positions ?g ! (i * 3 + 2) = Finite Z \<and>
                 2 - 1 / 2 ^ 22 \<le> sqrt (X\<^sup>2 + Y\<^sup>2 + Z\<^sup>2) \<and>
                 (d < 2 \<longrightarrow> sqrt (X\<^sup>2 + Y\<^sup>2 + Z\<^sup>2) \<le> 2 + 1 / 2 ^ 22)"
      by blast
  qed
  show ?thesis
  proof (rule exI[of _ x], rule exI[of _ y], rule exI[of _ z], rule exI[of _ d], intro conjI)
    show "drawn rand (n + 7 * i) = Finite x" "drawn rand (n + 7 * i + 1) = Finite y"
      "drawn rand (n + 7 * i + 2) = Finite z" by (rule dr)+
    show "- 10 \<le> x" "x < 10" "- 10 \<le> y" "y < 10" "- 10 \<le> z" "z < 10" by (rule range)+
    show "distance_of (Finite x) (Finite y) (Finite z) = Finite d" by (rule d(1))
    show "0 \<le> d" by (rule d(2))
    show "(1 - 1 / 2 ^ 50) * (x\<^sup>2 + y\<^sup>2 + z\<^sup>2) \<le> d\<^sup>2" by (rule d(3))
    show "d\<^sup>2 \<le> (1 + 1 / 2 ^ 50) * (x\<^sup>2 + y\<^sup>2 + z\<^sup>2)" by (rule d(4))
    show "d < 2 \<longrightarrow>
        positions ?g ! (i * 3) = fround (num_mul (Finite x) (num_div minDistance (Finite d))) \<and>
        positions ?g ! (i * 3 + 1) = fround (num_mul (Finite y) (num_div minDistance (Finite d))) \<and>
        positions ?g ! (i * 3 + 2) = fround (num_mul (Finite z) (num_div minDistance (Finite d)))"
      by (rule inside)
    show "2 \<le> d \<longrightarrow>
        positions ?g ! (i * 3) = fround (Finite x) \<and>
        positions ?g ! (i * 3 + 1) = fround (Finite y) \<and>
        positions ?g ! (i * 3 + 2) = fround (Finite z)"
      by (rule outside)
    show "x \<noteq> 0 \<or> y \<noteq> 0 \<or> z \<noteq> 0 \<longrightarrow>
        (\<exists>X Y Z. positions ?g ! (i * 3) = Finite X \<and>
                 positions ?g ! (i * 3 + 1) = Finite Y \<and>
                 positions ?g ! (i * 3 + 2) = Finite Z \<and>
                 2 - 1 / 2 ^ 22 \<le> sqrt (X\<^sup>2 + Y\<^sup>2 + Z\<^sup>2) \<and>
                 (d < 2 \<longrightarrow> sqrt (X\<^sup>2 + Y\<^sup>2 + Z\<^sup>2) \<le> 2 + 1 / 2 ^ 22))"
      by (rule kept)
  qed
qed

text \<open>
  The hypotheses of the amended claim C1 hold for the first star of the stream \<open>inner\<close>,
  which is drawn at distance less than 2 and rescaled.
\<close>

theorem stored_distance_tolerance_witness:
  "(\<forall>k. 0 \<le> inner k \<and> inner k < 1 \<and> f64_round (inner k) = inner k) \<and> (0::nat) < starCount \<and>
   drawn inner 0 = Finite (5 / 8) \<and> drawn inner 1 = Finite (5 / 8) \<and>
   drawn inner 2 = Finite (5 / 8) \<and>
   num_less (distance_of (Finite (5 / 8)) (Finite (5 / 8)) (Finite (5 / 8))) minDistance \<and>
   (\<exists>X Y Z. positions (generate_stars inner 0) ! 0 = Finite X \<and>
            positions (generate_stars inner 0) ! 1 = Finite Y \<and>
            positions (generate_stars inner 0) ! 2 = Finite Z \<and>
            2 - 1 / 2 ^ 22 \<le> sqrt (X\<^sup>2 + Y\<^sup>2 + Z\<^sup>2) \<and>
            sqrt (X\<^sup>2 + Y\<^sup>2 + Z\<^sup>2) \<le> 2 + 1 / 2 ^ 22)"
proof -
  have star: "(0::nat) < starCount" by (simp add: starCount_def)
  from stored_distance_tolerance[OF inner_unit star, of 0]
  obtain x y z d where
    dr: "drawn inner 0 = Finite x" "drawn inner 1 = Finite y" "drawn inner 2 = Finite z"
    and d: "distance_of (Finite x) (Finite y) (Finite z) = Finite d" "0 \<le> d"
      "d\<^sup>2 \<le> (1 + 1 / 2 ^ 50) * (x\<^sup>2 + y\<^sup>2 + z\<^sup>2)"
    and kept: "x \<noteq> 0 \<or> y \<noteq> 0 \<or> z \<noteq> 0 \<longrightarrow>
        (\<exists>X Y Z. positions (generate_stars inner 0) ! 0 = Finite X \<and>
                 positions (generate_stars inner 0) ! 1 = Finite Y \<and>
                 positions (generate_stars inner 0) ! 2 = Finite Z \<and>
                 2 - 1 / 2 ^ 22 \<le> sqrt (X\<^sup>2 + Y\<^sup>2 + Z\<^sup>2) \<and>
                 (d < 2 \<longrightarrow> sqrt (X\<^sup>2 + Y\<^sup>2 + Z\<^sup>2) \<le> 2 + 1 / 2 ^ 22))"
    by (simp only: mult_0_right mult_0 add_0_right add_0) (elim exE conjE, rule that)
  have xyz: "x = 5 / 8" "y = 5 / 8" "z = 5 / 8"
    using dr by (simp_all add: drawn_inner)
  have "d\<^sup>2 < 2\<^sup>2" using d(3) unfolding xyz by (simp add: power2_eq_square)
  then have near: "d < 2" by (rule power2_less_imp_less) simp
  then have less: "num_less (distance_of (Finite (5 / 8)) (Finite (5 / 8)) (Finite (5 / 8))) minDistance"
    using d(1) unfolding xyz by (simp add: minDistance_def)
  have "x \<noteq> 0 \<or> y \<noteq> 0 \<or> z \<noteq> 0" by (simp add: xyz)
  from kept[THEN mp, OF this] near
  have stored: "\<exists>X Y Z. positions (generate_stars inner 0) ! 0 = Finite X \<and>
            positions (generate_stars inner 0) ! 1 = Finite Y \<and>
            positions (generate_stars inner 0) ! 2 = Finite Z \<and>
            2 - 1 / 2 ^ 22 \<le> sqrt (X\<^sup>2 + Y\<^sup>2 + Z\<^sup>2) \<and>
            sqrt (X\<^sup>2 + Y\<^sup>2 + Z\<^sup>2) \<le> 2 + 1 / 2 ^ 22"
    by blast
  from inner_unit star drawn_inner less stored show ?thesis by blast
qed

text \<open>
  Claim C2. For every run of the star generation (every stream of random draws, started
  after any number of earlier draws), the star count is 2000, the position and color
  buffers have length 6000 and the size buffer has length 2000, and the loop stores into
  every slot of the three buffers exactly once: no slot occurs twice in the log of stores,
  and the slots in the log are all 6000 + 6000 + 2000 of them. Every slot ends up holding
  the value the loop computed for it: the three position slots of star \<open>i\<close> hold its three
  coordinates after the conditional rescaling, the three color slots hold draws 3 to 5 of
  its seven draws, and its size slot holds the size computed from the last one, each
  rounded to binary32.
\<close>

theorem star_buffers_written_once:
  "starCount = 2000 \<and>
   length (positions (generate_stars rand n)) = 6000 \<and>
   length (colors (generate_stars rand n)) = 6000 \<and>
   length (sizes (generate_stars rand n)) = 2000 \<and>
   distinct (writes (generate_stars rand n)) \<and>
   set (writes (generate_stars rand n)) =
     {Positions, Colors} \<times> {0..<6000} \<union> {Sizes} \<times> {0..<2000} \<and>
   map (\<lambda>i. (positions (generate_stars rand n) ! (i * 3),
              positions (generate_stars rand n) ! (i * 3 + 1),
              positions (generate_stars rand n) ! (i * 3 + 2))) [0..<2000]
     = map (\<lambda>i. case push_out (coordinate (Finite (rand (n + 7 * i))))
                         (coordinate (Finite (rand (n + 7 * i + 1))))
                         (coordinate (Finite (rand (n + 7 * i + 2)))) of
                  (x, y, z) \<Rightarrow> (fround x, fround y, fround z)) [0..<2000] \<and>
   map (\<lambda>i. (colors (generate_stars rand n) ! (i * 3),
              colors (generate_stars rand n) ! (i * 3 + 1),
              colors (generate_stars rand n) ! (i * 3 + 2))) [0..<2000]
     = map (\<lambda>i. (fround (Finite (rand (n + 7 * i + 3))),
                 fround (Finite (rand (n + 7 * i + 4))),
                 fround (Finite (rand (n + 7 * i + 5))))) [0..<2000] \<and>
   sizes (generate_stars rand n)
     = map (\<lambda>i. fround (star_size (Finite (rand (n + 7 * i + 6))))) [0..<2000]"
proof -
  have sc: "2000 = starCount" by (simp add: starCount_def)
  have "distinct (writes (generate_stars rand n))"
    by (simp only: writes_generate_stars distinct_star_writes)
  moreover have "set (writes (generate_stars rand n)) =
      {Positions, Colors} \<times> {0..<starCount * 3} \<union> {Sizes} \<times> {0..<starCount}"
    by (simp only: writes_generate_stars set_star_writes)
  ultimately have log: "starCount = 2000 \<and>
   length (positions (generate_stars rand n)) = 6000 \<and>
   length (colors (generate_stars rand n)) = 6000 \<and>
   length (sizes (generate_stars rand n)) = 2000 \<and>
   distinct (writes (generate_stars rand n)) \<and>
   set (writes (generate_stars rand n)) =
     {Positions, Colors} \<times> {0..<6000} \<union> {Sizes} \<times> {0..<2000}"
    by (simp add: length_generate_stars starCount_def)
  note contents = generate_stars_contents[of rand n, unfolded star_position_def drawn_def, folded sc]
  from log contents show ?thesis by blast
qed

text \<open>
  Claim C3, as stated, fails. From the state the mount handler has built, where the
  rotation and the time uniform are 0, ten invocations of the animation callback leave
  the time uniform at \<open>7205759403792793 / 2\<^sup>5\<^sup>6\<close> (0.09999999999999999), which is neither
  \<open>10 \<times> 0.01\<close> as a real number nor the binary64 product \<open>10 \<times> 0.01\<close>, which is the binary64
  value nearest to 0.1. The rotation is then \<open>4611686018427389 / 2\<^sup>6\<^sup>1\<close>
  (0.0020000000000000005).
\<close>

theorem ten_frames_time_uniform:
  "readout (Inr (build_scene near_one demo_canvas (demo_page (Some demo_canvas))))
     = Some (Finite 0, Some (Finite 0)) \<and>
   readout (frames 10 (build_scene near_one demo_canvas (demo_page (Some demo_canvas))))
     = Some (Finite (4611686018427389 / 2305843009213693952),
             Some (Finite (7205759403792793 / 72057594037927936))) \<and>
   (7205759403792793 / 72057594037927936 :: real) \<noteq> 10 * (1 / 100) \<and>
   num_mul (Finite 10) (f64 (1 / 100)) = Finite (3602879701896397 / 36028797018963968) \<and>
   (7205759403792793 / 72057594037927936 :: real) \<noteq> 3602879701896397 / 36028797018963968 \<and>
   (4611686018427389 / 2305843009213693952 :: real) \<noteq> 10 * (2 / 10000)"
proof -
  let ?w = "build_scene near_one demo_canvas (demo_page (Some demo_canvas))"
  from built_scene[of near_one demo_canvas "demo_page (Some demo_canvas)"]
  obtain s r u where sr: "stars ?w = Some s" "renderer ?w = Some r" "rotation_y s = Finite 0"
    "material_uniforms s = Some u" "uTime u = Finite 0"
    by (elim exE conjE) (rule that)
  have start: "readout (Inr ?w) = Some (Finite 0, Some (Finite 0))"
    by (simp add: readout_def sr)
  from frames_general[OF sr(1,2), of 10] obtain w' s' where
    f: "frames 10 ?w = Inr w'" "stars w' = Some s'"
      "rotation_y s' = repeated_add 10 (f64 (2 / 10000)) (rotation_y s)"
      "\<forall>u. material_uniforms s = Some u \<longrightarrow>
              material_uniforms s' =
                Some (u\<lparr>uTime := repeated_add 10 (f64 (1 / 100)) (uTime u)\<rparr>)"
    by (elim exE conjE) (rule that)
  have rot: "rotation_y s' = Finite (4611686018427389 / 2305843009213693952)"
    by (simp only: f(3) sr(3) ten_turn)
  from f(4) sr(4) have "material_uniforms s' =
      Some (u\<lparr>uTime := repeated_add 10 (f64 (1 / 100)) (uTime u)\<rparr>)"
    by blast
  then have time: "map_option uTime (material_uniforms s')
      = Some (Finite (7205759403792793 / 72057594037927936))"
    by (simp add: sr(5) ten_time)
  have after: "readout (frames 10 ?w)
     = Some (Finite (4611686018427389 / 2305843009213693952),
             Some (Finite (7205759403792793 / 72057594037927936)))"
    by (simp add: readout_def f(1,2) rot time)
  have "num_mul (Finite 10) (Finite (5764607523034235 / 576460752303423488))
      = Finite (f64_round (10 * (5764607523034235 / 576460752303423488)))"
    by (rule num_mul_Finite) simp
  then have prod: "num_mul (Finite 10) (f64 (1 / 100))
      = Finite (3602879701896397 / 36028797018963968)"
    by (simp only: f64_hundredth f64_round_ten_hundredths)
  have neq: "(7205759403792793 / 72057594037927936 :: real) \<noteq> 10 * (1 / 100)"
    "(7205759403792793 / 72057594037927936 :: real) \<noteq> 3602879701896397 / 36028797018963968"
    "(4611686018427389 / 2305843009213693952 :: real) \<noteq> 10 * (2 / 10000)"
    by simp_all
  from start after neq(1) prod neq(2,3) show ?thesis by (intro conjI)
qed

text \<open>
  Claim C3, amended. Starting from rotation 0 about the vertical axis, \<open>N\<close> invocations of
  the animation callback, for \<open>N \<le> 2\<^sup>5\<^sup>3\<close>, all return, and leave the rotation at the
  value of \<open>N\<close> binary64 additions of the binary64 value nearest to 0.0002, which differs
  from \<open>N \<times> 0.0002\<close> by at most the fraction \<open>(N + 2) / 2\<^sup>5\<^sup>3\<close> of it. The time uniform is
  incremented only when the material has a uniform table: without one the material still
  has none afterwards, and with one whose \<open>uTime\<close> starts at 0 it ends at the value of \<open>N\<close>
  binary64 additions of the binary64 value nearest to 0.01, which differs from
  \<open>N \<times> 0.01\<close> by at most the fraction \<open>(N + 2) / 2\<^sup>5\<^sup>3\<close> of it.
\<close>

theorem animation_increments:
  assumes "stars w = Some s" "renderer w = Some r" "rotation_y s = Finite 0"
    and "real N \<le> 2 ^ 53"
  shows "\<exists>w' s' \<rho>. frames N w = Inr w' \<and> stars w' = Some s' \<and>
           rotation_y s' = repeated_add N (f64 (2 / 10000)) (Finite 0) \<and>
           rotation_y s' = Finite \<rho> \<and>
           \<bar>\<rho> - real N * (2 / 10000)\<bar> \<le> real N * (2 / 10000) * (real N + 2) / 2 ^ 53 \<and>
           (material_uniforms s = None \<longrightarrow> material_uniforms s' = None) \<and>
           (\<forall>u. material_uniforms s = Some u \<and> uTime u = Finite 0 \<longrightarrow>
              (\<exists>u' \<tau>. material_uniforms s' = Some u' \<and>
                 uTime u' = repeated_add N (f64 (1 / 100)) (Finite 0) \<and>
                 uTime u' = Finite \<tau> \<and>
                 \<bar>\<tau> - real N * (1 / 100)\<bar> \<le> real N * (1 / 100) * (real N + 2) / 2 ^ 53))"
proof -
  from frames_general[OF assms(1,2), of N] obtain w' s' where
    f: "frames N w = Inr w'" "stars w' = Some s'"
      "rotation_y s' = repeated_add N (f64 (2 / 10000)) (rotation_y s)"
      "material_uniforms s = None \<longrightarrow> material_uniforms s' = None"
      "\<forall>u. material_uniforms s = Some u \<longrightarrow>
              material_uniforms s' =
                Some (u\<lparr>uTime := repeated_add N (f64 (1 / 100)) (uTime u)\<rparr>)"
    by (elim exE conjE) (rule that)
  have "(1::real) / 2 ^ 1000 \<le> 2 / 10000" "(2::real) / 10000 \<le> 1 / 2"
    and "(1::real) / 2 ^ 1000 \<le> 1 / 100" "(1::real) / 100 \<le> 1 / 2"
    by simp_all
  from accumulated[OF this(1,2) assms(4)] accumulated[OF this(3,4) assms(4)]
  obtain \<rho> \<tau> where
    rho: "repeated_add N (f64 (2 / 10000)) (Finite 0) = Finite \<rho>"
      "\<bar>\<rho> - real N * (2 / 10000)\<bar> \<le> real N * (2 / 10000) * (real N + 2) / 2 ^ 53"
    and tau: "repeated_add N (f64 (1 / 100)) (Finite 0) = Finite \<tau>"
      "\<bar>\<tau> - real N * (1 / 100)\<bar> \<le> real N * (1 / 100) * (real N + 2) / 2 ^ 53"
    by (elim exE conjE) (rule that)
  have rot: "rotation_y s' = repeated_add N (f64 (2 / 10000)) (Finite 0)"
    using f(3) by (simp only: assms(3))
  have time: "\<forall>u. material_uniforms s = Some u \<and> uTime u = Finite 0 \<longrightarrow>
              (\<exists>u' \<tau>. material_uniforms s' = Some u' \<and>
                 uTime u' = repeated_add N (f64 (1 / 100)) (Finite 0) \<and>
                 uTime u' = Finite \<tau> \<and>
                 \<bar>\<tau> - real N * (1 / 100)\<bar> \<le> real N * (1 / 100) * (real N + 2) / 2 ^ 53)"
  proof (intro allI impI)
    fix u
    assume u: "material_uniforms s = Some u \<and> uTime u = Finite 0"
    with f(5) have m: "material_uniforms s' =
        Some (u\<lparr>uTime := repeated_add N (f64 (1 / 100)) (uTime u)\<rparr>)"
      by blast
    let ?u' = "u\<lparr>uTime := repeated_add N (f64 (1 / 100)) (uTime u)\<rparr>"
    have "uTime ?u' = repeated_add N (f64 (1 / 100)) (Finite 0)" using u by simp
    with m tau show "\<exists>u' \<tau>. material_uniforms s' = Some u' \<and>
                 uTime u' = repeated_add N (f64 (1 / 100)) (Finite 0) \<and>
                 uTime u' = Finite \<tau> \<and>
                 \<bar>\<tau> - real N * (1 / 100)\<bar> \<le> real N * (1 / 100) * (real N + 2) / 2 ^ 53"
      by (intro exI[of _ ?u'] exI[of _ \<tau>]) simp
  qed
  show ?thesis
  proof (rule exI[of _ w'], rule exI[of _ s'], rule exI[of _ \<rho>], intro conjI)
    show "frames N w = Inr w'" by (rule f(1))
    show "stars w' = Some s'" by (rule f(2))
    show "rotation_y s' = repeated_add N (f64 (2 / 10000)) (Finite 0)" by (rule rot)
    show "rotation_y s' = Finite \<rho>" by (simp only: rot rho(1))
    show "\<bar>\<rho> - real N * (2 / 10000)\<bar> \<le> real N * (2 / 10000) * (real N + 2) / 2 ^ 53"
      by (rule rho(2))
    show "material_uniforms s = None \<longrightarrow> material_uniforms s' = None" by (rule f(4))
    show "\<forall>u. material_uniforms s = Some u \<and> uTime u = Finite 0 \<longrightarrow>
              (\<exists>u' \<tau>. material_uniforms s' = Some u' \<and>
                 uTime u' = repeated_add N (f64 (1 / 100)) (Finite 0) \<and>
                 uTime u' = Finite \<tau> \<and>
                 \<bar>\<tau> - real N * (1 / 100)\<bar> \<le> real N * (1 / 100) * (real N + 2) / 2 ^ 53)"
      by (rule time)
  qed
qed

text \<open>
  The hypotheses of the amended claim C3 hold in the state the mount handler has built
  just before it starts the animation; ten invocations later the rotation is within
  \<open>2\<^sup>-\<^sup>5\<^sup>8\<close> of 0.002 and the time uniform within \<open>2\<^sup>-\<^sup>5\<^sup>2\<close> of 0.1.
\<close>

theorem animation_increments_witness:
  "\<exists>s r w' s' u' \<rho> \<tau>.
     stars (build_scene near_one demo_canvas (demo_page (Some demo_canvas))) = Some s \<and>
     renderer (build_scene near_one demo_canvas (demo_page (Some demo_canvas))) = Some r \<and>
     rotation_y s = Finite 0 \<and> real (10::nat) \<le> 2 ^ 53 \<and>
     frames 10 (build_scene near_one demo_canvas (demo_page (Some demo_canvas))) = Inr w' \<and>
     stars w' = Some s' \<and> rotation_y s' = Finite \<rho> \<and>
     \<bar>\<rho> - 2 / 1000\<bar> \<le> 1 / 2 ^ 58 \<and>
     material_uniforms s' = Some u' \<and> uTime u' = Finite \<tau> \<and>
     \<bar>\<tau> - 1 / 10\<bar> \<le> 1 / 2 ^ 52"
proof -
  let ?w = "build_scene near_one demo_canvas (demo_page (Some demo_canvas))"
  from built_scene[of near_one demo_canvas "demo_page (Some demo_canvas)"]
  obtain s r u where sr: "stars ?w = Some s" "renderer ?w = Some r" "rotation_y s = Finite 0"
    "material_uniforms s = Some u" "uTime u = Finite 0"
    by (elim exE conjE) (rule that)
  have n: "real (10::nat) \<le> 2 ^ 53" by simp
  from animation_increments[OF sr(1,2,3) n] obtain w' s' \<rho> where
    f: "frames 10 ?w = Inr w'" "stars w' = Some s'" "rotation_y s' = Finite \<rho>"
      "\<bar>\<rho> - real (10::nat) * (2 / 10000)\<bar>
         \<le> real (10::nat) * (2 / 10000) * (real (10::nat) + 2) / 2 ^ 53"
      "\<forall>u. material_uniforms s = Some u \<and> uTime u = Finite 0 \<longrightarrow>
              (\<exists>u' \<tau>. material_uniforms s' = Some u' \<and>
                 uTime u' = repeated_add 10 (f64 (1 / 100)) (Finite 0) \<and>
                 uTime u' = Finite \<tau> \<and>
                 \<bar>\<tau> - real (10::nat) * (1 / 100)\<bar>
                   \<le> real (10::nat) * (1 / 100) * (real (10::nat) + 2) / 2 ^ 53)"
    by (elim exE conjE) (rule that)
  from f(5) sr(4,5) obtain u' \<tau> where
    t: "material_uniforms s' = Some u'" "uTime u' = Finite \<tau>"
      "\<bar>\<tau> - real (10::nat) * (1 / 100)\<bar>
         \<le> real (10::nat) * (1 / 100) * (real (10::nat) + 2) / 2 ^ 53"
    by blast
  have "\<bar>\<rho> - 2 / 1000\<bar> \<le> 1 / 2 ^ 58" using f(4) by simp
  moreover have "\<bar>\<tau> - 1 / 10\<bar> \<le> 1 / 2 ^ 52" using t(3) by simp
  ultimately show ?thesis using sr(1,2,3) n f(1,2,3) t(1,2) by blast
qed

text \<open>
  Claim C4. When the page has no canvas, the mount handler returns without an error and
  leaves the state as it was; and whatever frames and resizes the browser goes through
  afterwards, no error arises, no scene, camera, renderer or star object exists, no resize
  listener is registered, no frame request is pending and no handle is stored. There being
  no renderer, nothing is ever rendered.
\<close>

theorem missing_canvas_inert:
  "onMounted rand (page_load None iw ih dpr) = Inr (page_load None iw ih dpr) \<and>
   (\<exists>w'. run es (page_load None iw ih dpr) = Inr w' \<and>
      scene w' = None \<and> camera w' = None \<and> renderer w' = None \<and> stars w' = None \<and>
      animationFrameId w' = None \<and> resize_listeners w' = 0 \<and> frame_requests w' = [] \<and>
      texture_loads w' = [] \<and> math_random_calls w' = 0)"
proof -
  have "onMounted rand (page_load None iw ih dpr) = Inr (page_load None iw ih dpr)"
    by (simp add: onMounted_def page_load_def)
  moreover from inert_run[OF inert_page_load, of es iw ih dpr]
  have "\<exists>w'. run es (page_load None iw ih dpr) = Inr w' \<and> inert w'" .
  ultimately show ?thesis by (auto simp: inert_def)
qed

text \<open>
  Claim C5. If the three position draws of a star are all \<open>1/2\<close>, the drawn position is
  the origin: its distance is 0, the test \<^verbatim>\<open>distance < minDistance\<close> succeeds, the scale
  factor \<open>2 / 0\<close> is \<open>Infinity\<close>, and the three stored coordinates, each \<open>0 \<times> Infinity\<close>,
  are \<open>NaN\<close>. Nothing in the loop tests for this case.
\<close>

theorem origin_star_not_finite:
  assumes "i < starCount"
    and "rand (n + 7 * i) = 1 / 2" "rand (n + 7 * i + 1) = 1 / 2" "rand (n + 7 * i + 2) = 1 / 2"
  shows "distance_of (drawn rand (n + 7 * i)) (drawn rand (n + 7 * i + 1))
            (drawn rand (n + 7 * i + 2)) = Finite 0 \<and>
         num_less (Finite 0) minDistance \<and>
         num_div minDistance (Finite 0) = Infinity \<and>
         \<not> is_finite (num_div minDistance (Finite 0)) \<and>
         positions (generate_stars rand n) ! (i * 3) = NaN \<and>
         positions (generate_stars rand n) ! (i * 3 + 1) = NaN \<and>
         positions (generate_stars rand n) ! (i * 3 + 2) = NaN \<and>
         \<not> is_finite (positions (generate_stars rand n) ! (i * 3)) \<and>
         \<not> is_finite (positions (generate_stars rand n) ! (i * 3 + 1)) \<and>
         \<not> is_finite (positions (generate_stars rand n) ! (i * 3 + 2))"
proof -
  have d: "drawn rand (n + 7 * i) = Finite 0" "drawn rand (n + 7 * i + 1) = Finite 0"
    "drawn rand (n + 7 * i + 2) = Finite 0"
    using assms by (simp_all add: drawn_origin)
  then have "star_position rand (n + 7 * i) = (NaN, NaN, NaN)"
    by (simp add: star_position_def add.assoc push_out_origin)
  with generate_stars_slots[OF assms(1), of rand n] d show ?thesis
    by (simp add: distance_origin minDistance_def inf_of_def fround.simps)
qed

text \<open>
  The hypotheses of claim C5 hold for the first star of the stream whose draws
  are all \<open>1/2\<close>.
\<close>

theorem origin_star_not_finite_witness:
  "0 < starCount \<and> at_origin 0 = 1 / 2 \<and> at_origin 1 = 1 / 2 \<and> at_origin 2 = 1 / 2 \<and>
   positions (generate_stars at_origin 0) ! 0 = NaN \<and>
   positions (generate_stars at_origin 0) ! 1 = NaN \<and>
   positions (generate_stars at_origin 0) ! 2 = NaN"
proof -
  have p: "0 < starCount" by (simp add: starCount_def)
  have a: "at_origin (0 + 7 * 0) = 1 / 2" "at_origin (0 + 7 * 0 + 1) = 1 / 2"
    "at_origin (0 + 7 * 0 + 2) = 1 / 2"
    by (simp_all add: at_origin_def)
  have q: "at_origin 0 = 1 / 2 \<and> at_origin 1 = 1 / 2 \<and> at_origin 2 = 1 / 2"
    by (simp add: at_origin_def)
  show ?thesis using origin_star_not_finite[OF p a] p q by (simp add: numeral_2_eq_2)
qed

text \<open>
  Claim C6. Mount the component on a page with a canvas, let the browser go through any
  frames and resizes, then unmount. At the unmount exactly one frame request is pending and
  its handle is the stored one; the unmount handler cancels it, so none is pending
  afterwards, and disposes the renderer, whose dispose count goes from 0 to 1. Whatever
  frames and resizes follow, the render count stays what it was at the unmount and the
  dispose count stays 1.
\<close>

theorem unmount_releases:
  "\<exists>w1 w2 w3 h r2 r3.
     onMounted rand (page_load (Some cv) iw ih dpr) = Inr w1 \<and>
     run es w1 = Inr w2 \<and>
     animationFrameId w2 = Some h \<and> frame_requests w2 = [h] \<and>
     renderer w2 = Some r2 \<and> dispose_calls r2 = 0 \<and>
     onUnmounted w2 = Inr w3 \<and>
     frame_requests w3 = [] \<and>
     renderer w3 = Some r3 \<and> dispose_calls r3 = 1 \<and> render_calls r3 = render_calls r2 \<and>
     (\<forall>es'. \<exists>w4 r4. run es' w3 = Inr w4 \<and> frame_requests w4 = [] \<and> renderer w4 = Some r4 \<and>
        render_calls r4 = render_calls r2 \<and> dispose_calls r4 = 1)"
proof -
  have "frame_requests (page_load (Some cv) iw ih dpr) = []"
    by (simp add: page_load_def)
  with mounted_build_scene_animate[of rand cv "page_load (Some cv) iw ih dpr"]
  obtain w1 where w1: "onMounted rand (page_load (Some cv) iw ih dpr) = Inr w1" "mounted w1"
    by (auto simp: onMounted_def page_load_def)
  from mounted_run[OF w1(2), of es] obtain w2 where w2: "run es w1 = Inr w2" "mounted w2"
    by blast
  from w2(2) obtain h r2 where m: "animationFrameId w2 = Some h" "frame_requests w2 = [h]"
    "renderer w2 = Some r2" "dispose_calls r2 = 0"
    by (auto simp: mounted_def)
  from mounted_onUnmounted[OF w2(2)] m(3) obtain w3
    where w3: "onUnmounted w2 = Inr w3" "released (render_calls r2) w3"
    by auto
  from w3(2) obtain r3 where r3: "frame_requests w3 = []" "renderer w3 = Some r3"
    "dispose_calls r3 = 1" "render_calls r3 = render_calls r2"
    by (auto simp: released_def)
  have later: "\<forall>es'. \<exists>w4 r4. run es' w3 = Inr w4 \<and> frame_requests w4 = [] \<and>
      renderer w4 = Some r4 \<and> render_calls r4 = render_calls r2 \<and> dispose_calls r4 = 1"
  proof
    fix es'
    from released_run[OF w3(2), of es']
    show "\<exists>w4 r4. run es' w3 = Inr w4 \<and> frame_requests w4 = [] \<and>
      renderer w4 = Some r4 \<and> render_calls r4 = render_calls r2 \<and> dispose_calls r4 = 1"
      by (auto simp: released_def)
  qed
  from w1(1) w2(1) m w3(1) r3 later show ?thesis by blast
qed



text \<open>
  Claim C8, as stated, fails. When \<^verbatim>\<open>Math.random()\<close> returns \<open>1 - 2\<^sup>-\<^sup>3\<^sup>0\<close>, a value of
  \<open>[0, 1)\<close>, the store into the color buffer rounds it to the binary32 value 1, and the
  size computed in binary64, \<open>1801439849689907 / 2\<^sup>5\<^sup>2\<close> (0.3999999997206032), is rounded
  by the store into the size buffer to the binary32 value \<open>13421773 / 2\<^sup>2\<^sup>5\<close>, which is
  above 0.4.
\<close>

theorem stored_color_reaches_one:
  "0 \<le> near_one 3 \<and> near_one 3 < 1 \<and> 0 \<le> near_one 6 \<and> near_one 6 < 1 \<and>
   colors (generate_stars near_one 0) ! 0 = Finite 1 \<and>
   sizes (generate_stars near_one 0) ! 0 = Finite (13421773 / 33554432) \<and>
   (4 / 10 :: real) < 13421773 / 33554432"
proof -
  have "(0::nat) < starCount" by (simp add: starCount_def)
  from generate_stars_slots[OF this, of near_one 0]
  have c: "colors (generate_stars near_one 0) ! 0 = fround (Finite (near_one 3))"
    and s: "sizes (generate_stars near_one 0) ! 0 = fround (star_size (Finite (near_one 6)))"
    by simp_all
  have "fround (Finite (1 - 1 / 2 ^ 30)) = Finite (f32_round (1 - 1 / 2 ^ 30))"
    by (rule fround_small) simp
  then have c1: "fround (Finite (near_one 3)) = Finite 1"
    by (simp only: f32_round_near_one near_one_def)
  have "star_size (Finite (1 - 1 / 2 ^ 30)) =
      Finite (f64_round (f64_round ((1 - 1 / 2 ^ 30) * (5404319552844595 / 18014398509481984))
        + 3602879701896397 / 36028797018963968))"
    by (rule star_size_Finite(1)) simp_all
  then have size: "star_size (Finite (near_one 6)) = Finite (1801439849689907 / 4503599627370496)"
    by (simp only: near_one_def f64_round_near_one_product f64_round_near_one_sum)
  have "fround (Finite (1801439849689907 / 4503599627370496))
      = Finite (f32_round (1801439849689907 / 4503599627370496))"
    by (rule fround_small) simp
  then have s1: "fround (star_size (Finite (near_one 6))) = Finite (13421773 / 33554432)"
    by (simp only: size f32_round_near_one_size)
  show ?thesis
    unfolding c s c1 s1 by (simp add: near_one_def)
qed

text \<open>
  Claim C8, amended. Every generated star size is computed from a draw \<open>r\<close> of \<open>[0, 1)\<close>
  as the binary64 sum of the binary64 product of \<open>r\<close> and the binary64 value nearest to
  0.3, and the binary64 value nearest to 0.1; it is rounded to binary32 when stored, so
  every value of the size buffer lies in the closed interval from 0.1 to
  \<open>13421773 / 2\<^sup>2\<^sup>5\<close> (the binary32 value nearest to 0.4). Every stored color component
  is a draw rounded to binary32 and lies in the closed interval \<open>[0, 1]\<close>.
\<close>

theorem stored_ranges_closed:
  assumes "\<forall>k. 0 \<le> rand k \<and> rand k < 1" and "i < starCount"
  shows "sizes (generate_stars rand n) ! i = fround (star_size (Finite (rand (n + 7 * i + 6)))) \<and>
         (\<exists>v s. star_size (Finite (rand (n + 7 * i + 6))) = Finite v \<and>
              v = f64_round (f64_round (rand (n + 7 * i + 6) * (5404319552844595 / 18014398509481984))
                    + 3602879701896397 / 36028797018963968) \<and>
              sizes (generate_stars rand n) ! i = Finite s \<and> s = f32_round v \<and>
              1 / 10 \<le> s \<and> s \<le> 13421773 / 2 ^ 25) \<and>
         (\<exists>c. colors (generate_stars rand n) ! (i * 3) = Finite c \<and>
              c = f32_round (rand (n + 7 * i + 3)) \<and> 0 \<le> c \<and> c \<le> 1) \<and>
         (\<exists>c. colors (generate_stars rand n) ! (i * 3 + 1) = Finite c \<and>
              c = f32_round (rand (n + 7 * i + 4)) \<and> 0 \<le> c \<and> c \<le> 1) \<and>
         (\<exists>c. colors (generate_stars rand n) ! (i * 3 + 2) = Finite c \<and>
              c = f32_round (rand (n + 7 * i + 5)) \<and> 0 \<le> c \<and> c \<le> 1)"
proof -
  note slots = generate_stars_slots[OF assms(2), of rand n]
  have r: "\<And>k. 0 \<le> rand k" "\<And>k. rand k < 1" using assms(1) by simp_all
  have size: "sizes (generate_stars rand n) ! i = fround (star_size (Finite (rand (n + 7 * i + 6))))"
    using slots by simp
  from stored_size_range[OF r, of "n + 7 * i + 6"] obtain v where
    v: "star_size (Finite (rand (n + 7 * i + 6))) = Finite v"
      "v = f64_round (f64_round (rand (n + 7 * i + 6) * (5404319552844595 / 18014398509481984))
                    + 3602879701896397 / 36028797018963968)"
      "fround (Finite v) = Finite (f32_round v)"
      "1 / 10 \<le> f32_round v" "f32_round v \<le> 13421773 / 2 ^ 25"
    by (elim exE conjE) (rule that)
  have "sizes (generate_stars rand n) ! i = Finite (f32_round v)"
    by (simp only: size v(1) v(3))
  with v have sizes_ok: "\<exists>v s. star_size (Finite (rand (n + 7 * i + 6))) = Finite v \<and>
              v = f64_round (f64_round (rand (n + 7 * i + 6) * (5404319552844595 / 18014398509481984))
                    + 3602879701896397 / 36028797018963968) \<and>
              sizes (generate_stars rand n) ! i = Finite s \<and> s = f32_round v \<and>
              1 / 10 \<le> s \<and> s \<le> 13421773 / 2 ^ 25"
    by blast
  have c0: "\<exists>c. colors (generate_stars rand n) ! (i * 3) = Finite c \<and>
              c = f32_round (rand (n + 7 * i + 3)) \<and> 0 \<le> c \<and> c \<le> 1"
    using slots stored_color_range[OF r, of "n + 7 * i + 3"] by simp
  have c1: "\<exists>c. colors (generate_stars rand n) ! (i * 3 + 1) = Finite c \<and>
              c = f32_round (rand (n + 7 * i + 4)) \<and> 0 \<le> c \<and> c \<le> 1"
    using slots stored_color_range[OF r, of "n + 7 * i + 4"] by simp
  have c2: "\<exists>c. colors (generate_stars rand n) ! (i * 3 + 2) = Finite c \<and>
              c = f32_round (rand (n + 7 * i + 5)) \<and> 0 \<le> c \<and> c \<le> 1"
    using slots stored_color_range[OF r, of "n + 7 * i + 5"] by simp
  from size sizes_ok c0 c1 c2 show ?thesis by (intro conjI)
qed

text \<open>
  The hypotheses of the amended claim C8 hold for the first star of the stream
  \<open>near_one\<close>.
\<close>

theorem stored_ranges_closed_witness:
  "(\<forall>k. 0 \<le> near_one k \<and> near_one k < 1) \<and> 0 < starCount \<and>
   (\<exists>s. sizes (generate_stars near_one 0) ! 0 = Finite s \<and> 1 / 10 \<le> s \<and> s \<le> 13421773 / 2 ^ 25) \<and>
   (\<exists>c. colors (generate_stars near_one 0) ! 0 = Finite c \<and> 0 \<le> c \<and> c \<le> 1)"
proof -
  have h: "\<forall>k. 0 \<le> near_one k \<and> near_one k < 1" by (simp add: near_one_def)
  have p: "0 < starCount" by (simp add: starCount_def)
  note inst = stored_ranges_closed[OF h p, of 0]
  from inst obtain s where
    s: "sizes (generate_stars near_one 0) ! 0 = Finite s" "1 / 10 \<le> s" "s \<le> 13421773 / 2 ^ 25"
    by (simp only: mult_0_right mult_0 add_0_right add_0) (elim exE conjE, rule that)
  from inst obtain c where
    c: "colors (generate_stars near_one 0) ! 0 = Finite c" "0 \<le> c" "c \<le> 1"
    by (simp only: mult_0_right mult_0 add_0_right add_0) (elim exE conjE, rule that)
  from s c have "(\<exists>s. sizes (generate_stars near_one 0) ! 0 = Finite s \<and> 1 / 10 \<le> s \<and> s \<le> 13421773 / 2 ^ 25)"
    and "(\<exists>c. colors (generate_stars near_one 0) ! 0 = Finite c \<and> 0 \<le> c \<and> c \<le> 1)"
    by blast+
  with h p show ?thesis by blast
qed

text \<open>
  Claim C9. When no renderer has been constructed and no frame handle has been stored, the
  unmount handler returns without an error and leaves the state as it was: the
  cancellation is skipped and so is the dispose call.
\<close>

theorem unmount_without_mount:
  assumes "renderer w = None" "animationFrameId w = None"
  shows "onUnmounted w = Inr w"
  using assms by (simp add: onUnmounted_def)

text \<open>
  The hypotheses of claim C9 hold on a page without a canvas, after the mount
  handler has run.
\<close>

theorem unmount_without_mount_witness:
  "onMounted at_origin (demo_page None) = Inr (demo_page None) \<and>
   renderer (demo_page None) = None \<and> animationFrameId (demo_page None) = None \<and>
   onUnmounted (demo_page None) = Inr (demo_page None)"
proof -
  have h: "renderer (demo_page None) = None" "animationFrameId (demo_page None) = None"
    by (simp_all add: demo_page_def page_load_def)
  have "onMounted at_origin (demo_page None) = Inr (demo_page None)"
    by (simp add: onMounted_def demo_page_def page_load_def)
  with unmount_without_mount[OF h] h show ?thesis by simp
qed

text \<open>
  Claim C10. An invocation of the animation callback that returns leaves the camera (field
  of view, aspect, near, far, position, projection) and the scene as they were, and the
  star object as it was except for its rotation about the vertical axis and the \<open>uTime\<close>
  entry of its uniform table: the position, color and size buffers and the rotations about
  the other two axes are unchanged.
\<close>

theorem animate_frame:
  assumes "animate w = Inr w'"
  shows "camera w' = camera w \<and> scene w' = scene w \<and>
         (\<exists>s s'. stars w = Some s \<and> stars w' = Some s' \<and>
            position_attribute s' = position_attribute s \<and>
            color_attribute s' = color_attribute s \<and>
            size_attribute s' = size_attribute s \<and>
            rotation_x s' = rotation_x s \<and> rotation_z s' = rotation_z s \<and>
            s' = s\<lparr>rotation_y := num_add (rotation_y s) (f64 (2 / 10000)),
                    material_uniforms :=
                      map_option (\<lambda>u. u\<lparr>uTime := num_add (uTime u) (f64 (1 / 100))\<rparr>)
                        (material_uniforms s)\<rparr>)"
proof -
  from assms obtain s r where sr: "stars w = Some s" "renderer w = Some r"
    by (rule animate_Inr)
  from animate_defined[OF sr] assms sr(1) show ?thesis by auto
qed

text \<open>
  The hypothesis of claim C10 holds for the first invocation of the animation
  callback, made by the mount handler.
\<close>

theorem animate_frame_witness:
  "\<exists>w'. animate (build_scene at_origin demo_canvas (demo_page (Some demo_canvas))) = Inr w' \<and>
     camera w' = camera (build_scene at_origin demo_canvas (demo_page (Some demo_canvas))) \<and>
     map_option position_attribute (stars w') =
       Some (positions (generate_stars at_origin 0))"
proof -
  let ?w = "build_scene at_origin demo_canvas (demo_page (Some demo_canvas))"
  have s: "map_option position_attribute (stars ?w) = Some (positions (generate_stars at_origin 0))"
    by (simp add: build_scene_def Let_def demo_page_def page_load_def)
  from mounted_build_scene_animate[of at_origin demo_canvas "demo_page (Some demo_canvas)"]
  obtain w' where a: "animate ?w = Inr w'" by blast
  from animate_frame[OF a] s a show ?thesis by auto
qed

end
